theory Spec2Isabelle
  imports Complex_Main
begin

section \<open>JavaScript values at the untrusted boundary\<close>

text \<open>
  The normalizer and the validator receive the result of \<^verbatim>\<open>JSON.parse\<close> (or any other
  plain data value), typed \<^verbatim>\<open>AICompactDiagram\<close> but inspected field by field at run time.
  A value is therefore one of the JavaScript data values.

  A number is an IEEE double. Every finite double is a rational, and the only operations
  the code applies to numbers (comparison, \<^verbatim>\<open>Number.isFinite\<close>, \<^verbatim>\<open>Math.round\<close>,
  membership in a \<^verbatim>\<open>Set\<close>) are exact on them, so a finite number is modelled by its
  rational value. The two zeros are one value here: \<^verbatim>\<open><\<close>, \<^verbatim>\<open>>=\<close> and the
  \<^verbatim>\<open>Set\<close> (SameValueZero) do not tell them apart.
\<close>

datatype jsnum = Fin rat | NaN | PosInf | NegInf

datatype jsval =
    JUndefined
  | JNull
  | JBool bool
  | JNum jsnum
  | JStr string
  | JArr "jsval list"
  | JObj "(string \<times> jsval) list"

text \<open>The only exception the normalizer's own operations can raise.\<close>

datatype error = TypeError

text \<open>
  Two conversions of the platform are not computed by this repository and depend on the
  rounding of doubles: the decimal rendering of a number (\<^verbatim>\<open>Number::toString\<close>) and the
  parsing of a numeric string (\<^verbatim>\<open>StringToNumber\<close>). They are parameters of the model;
  every theorem below holds for all of them.
\<close>

record platform =
  NumberToString :: "jsnum \<Rightarrow> string"
  StringToNumber :: "string \<Rightarrow> jsnum"

text \<open>
  A stand-in platform for evaluating concrete examples. The examples below only coerce
  numbers to numbers and strings to strings, so neither field is ever consulted.
\<close>

definition example_platform :: platform where
  "example_platform = \<lparr>NumberToString = (\<lambda>n. ''0''), StringToNumber = (\<lambda>s. NaN)\<rparr>"

subsection \<open>Property and index access\<close>

text \<open>\<^verbatim>\<open>v?.k\<close> for the keys used here (\<^verbatim>\<open>t\<close>, \<^verbatim>\<open>i\<close>, \<^verbatim>\<open>v\<close>, \<^verbatim>\<open>id\<close>): an own property of an
  object, \<^verbatim>\<open>undefined\<close> on anything else (no prototype defines these keys).\<close>

definition get_prop :: "jsval \<Rightarrow> string \<Rightarrow> jsval" where
  "get_prop v k =
     (case v of
        JObj kvs \<Rightarrow> (case map_of kvs k of Some x \<Rightarrow> x | None \<Rightarrow> JUndefined)
      | _ \<Rightarrow> JUndefined)"

text \<open>\<^verbatim>\<open>xs[k]\<close> on an array: \<^verbatim>\<open>undefined\<close> past the end.\<close>

definition at_index :: "jsval list \<Rightarrow> nat \<Rightarrow> jsval" where
  "at_index xs k = (if k < length xs then xs ! k else JUndefined)"

definition truthy :: "jsval \<Rightarrow> bool" where
  "truthy v =
     (case v of
        JUndefined \<Rightarrow> False
      | JNull \<Rightarrow> False
      | JBool b \<Rightarrow> b
      | JNum n \<Rightarrow> n \<noteq> Fin 0 \<and> n \<noteq> NaN
      | JStr s \<Rightarrow> s \<noteq> []
      | JArr xs \<Rightarrow> True
      | JObj kvs \<Rightarrow> True)"

subsection \<open>Coercions\<close>

text \<open>
  \<^verbatim>\<open>String(v)\<close>. An array is joined with commas, \<^verbatim>\<open>null\<close> and \<^verbatim>\<open>undefined\<close> elements
  rendering as the empty string. A plain object renders as \<^verbatim>\<open>[object Object]\<close> through
  the inherited \<^verbatim>\<open>toString\<close>; when the object has an own property \<^verbatim>\<open>toString\<close> (a data
  value, so not callable), OrdinaryToPrimitive finds no method returning a primitive
  (the inherited \<^verbatim>\<open>valueOf\<close> returns the object itself) and throws a TypeError.
\<close>

fun ToString :: "platform \<Rightarrow> jsval \<Rightarrow> error + string"
  and join_elements :: "platform \<Rightarrow> jsval list \<Rightarrow> error + string" where
  "ToString P JUndefined = Inr ''undefined''"
| "ToString P JNull = Inr ''null''"
| "ToString P (JBool b) = Inr (if b then ''true'' else ''false'')"
| "ToString P (JNum n) = Inr (NumberToString P n)"
| "ToString P (JStr s) = Inr s"
| "ToString P (JArr xs) = join_elements P xs"
| "ToString P (JObj kvs) =
     (if map_of kvs ''toString'' \<noteq> None then Inl TypeError else Inr ''[object Object]'')"
| "join_elements P [] = Inr []"
| "join_elements P (x # xs) =
     (case (if x = JUndefined \<or> x = JNull then Inr [] else ToString P x) of
        Inl e \<Rightarrow> Inl e
      | Inr s \<Rightarrow>
          (if xs = [] then Inr s
           else (case join_elements P xs of
                   Inl e \<Rightarrow> Inl e
                 | Inr r \<Rightarrow> Inr (s @ '','' @ r))))"

text \<open>
  \<^verbatim>\<open>Number(v)\<close>. Arrays and objects go through their string form (for an object the
  own \<^verbatim>\<open>valueOf\<close>, if any, is not callable and the inherited one returns the object).
\<close>

definition ToNumber :: "platform \<Rightarrow> jsval \<Rightarrow> error + jsnum" where
  "ToNumber P v =
     (case v of
        JUndefined \<Rightarrow> Inr NaN
      | JNull \<Rightarrow> Inr (Fin 0)
      | JBool b \<Rightarrow> Inr (Fin (if b then 1 else 0))
      | JNum n \<Rightarrow> Inr n
      | JStr s \<Rightarrow> Inr (StringToNumber P s)
      | _ \<Rightarrow> (case ToString P v of Inl e \<Rightarrow> Inl e | Inr s \<Rightarrow> Inr (StringToNumber P s)))"

definition isFinite :: "jsnum \<Rightarrow> bool" where
  "isFinite n = (case n of Fin q \<Rightarrow> True | _ \<Rightarrow> False)"

text \<open>\<^verbatim>\<open>a < b\<close> and \<^verbatim>\<open>a >= b\<close> on numbers; every comparison with NaN is false.\<close>

fun num_lt :: "jsnum \<Rightarrow> jsnum \<Rightarrow> bool" where
  "num_lt NaN b = False"
| "num_lt a NaN = False"
| "num_lt (Fin p) (Fin q) = (p < q)"
| "num_lt (Fin p) PosInf = True"
| "num_lt (Fin p) NegInf = False"
| "num_lt PosInf b = False"
| "num_lt NegInf NegInf = False"
| "num_lt NegInf b = True"

fun num_ge :: "jsnum \<Rightarrow> jsnum \<Rightarrow> bool" where
  "num_ge NaN b = False"
| "num_ge a NaN = False"
| "num_ge a b = (\<not> num_lt a b)"

text \<open>\<^verbatim>\<open>Math.round\<close>: the nearest integer, a tie going towards plus infinity.\<close>

fun Math_round :: "jsnum \<Rightarrow> jsnum" where
  "Math_round (Fin q) = Fin (of_int \<lfloor>q + 1 / 2\<rfloor>)"
| "Math_round n = n"

text \<open>The decimal digits of an array index or length, as a template literal prints it.\<close>

definition digit_char :: "nat \<Rightarrow> char" where
  "digit_char d = ''0123456789'' ! (d mod 10)"

fun digits_of :: "nat \<Rightarrow> nat \<Rightarrow> string" where
  "digits_of 0 n = []"
| "digits_of (Suc fuel) n =
     (if n < 10 then [digit_char n]
      else digits_of fuel (n div 10) @ [digit_char n])"

definition show_nat :: "nat \<Rightarrow> string" where
  "show_nat n = digits_of (Suc n) n"

subsection \<open>Strings\<close>

text \<open>
  A string is a sequence of code units below 256 (Latin-1); strings with other
  characters are outside the model. On these, \<^verbatim>\<open>trim\<close> and the regular expression class
  \<^verbatim>\<open>\s\<close> strip tab, line feed, vertical tab, form feed, carriage return, space and
  no-break space, and \<^verbatim>\<open>toLowerCase\<close> adds 32 to the capital letters.

  \<open>isUpper\<close> holds of the letters \<open>A\<close> to \<open>Z\<close> and of the accented capitals (code units
  192 to 214 and 216 to 222): exactly the characters of this alphabet that
  \<^verbatim>\<open>toLowerCase\<close> changes. Beyond Latin-1 there are upper-case letters without a
  lower-case form (U+2102 is one), which \<^verbatim>\<open>toLowerCase\<close> leaves unchanged; statements
  about case are therefore made about what \<^verbatim>\<open>toLowerCase\<close> changes, not about the
  Unicode category of a character.
\<close>

definition isWhiteSpace :: "char \<Rightarrow> bool" where
  "isWhiteSpace c = (of_char c \<in> {9, 10, 11, 12, 13, 32, 160 :: nat})"

definition trim :: "string \<Rightarrow> string" where
  "trim s = rev (dropWhile isWhiteSpace (rev (dropWhile isWhiteSpace s)))"

definition isUpper :: "char \<Rightarrow> bool" where
  "isUpper c =
     (let k = (of_char c :: nat)
      in (65 \<le> k \<and> k \<le> 90) \<or> (192 \<le> k \<and> k \<le> 214) \<or> (216 \<le> k \<and> k \<le> 222))"

definition lower_char :: "char \<Rightarrow> char" where
  "lower_char c = (if isUpper c then char_of (of_char c + (32 :: nat)) else c)"

definition toLowerCase :: "string \<Rightarrow> string" where
  "toLowerCase s = map lower_char s"

text \<open>\<^verbatim>\<open>s.replace(/[C]+/g, r)\<close>: every maximal run of characters of the class becomes \<open>r\<close>.\<close>

function replace_runs :: "(char \<Rightarrow> bool) \<Rightarrow> string \<Rightarrow> string \<Rightarrow> string" where
  "replace_runs p r [] = []"
| "replace_runs p r (c # cs) =
     (if p c then r @ replace_runs p r (dropWhile p cs) else c # replace_runs p r cs)"
  by pat_completeness auto
termination
  by (relation "measure (\<lambda>(p, r, s). length s)")
     (auto simp: length_dropWhile_le intro: le_imp_less_Suc)

text \<open>\<^verbatim>\<open>s.replace(/_/g, '-')\<close>.\<close>

definition underscores_to_hyphens :: "string \<Rightarrow> string" where
  "underscores_to_hyphens s = map (\<lambda>c. if c = CHR ''_'' then CHR ''-'' else c) s"

definition toSafeString :: "platform \<Rightarrow> jsval \<Rightarrow> error + string" where
  "toSafeString P v =
     (case v of
        JStr s \<Rightarrow> Inr s
      | JNull \<Rightarrow> Inr []
      | JUndefined \<Rightarrow> Inr []
      | _ \<Rightarrow> ToString P v)"

section \<open>Icon resolver\<close>

definition AVAILABLE_ICON_IDS :: "string list" where
  "AVAILABLE_ICON_IDS =
     [''block'', ''cache'', ''cardterminal'', ''cloud'', ''cronjob'', ''cube'', ''desktop'',
      ''diamond'', ''dns'', ''document'', ''firewall'', ''function-module'', ''image'',
      ''laptop'', ''loadbalancer'', ''lock'', ''mail'', ''mailmultiple'', ''mobiledevice'',
      ''office'', ''package-module'', ''paymentcard'', ''plane'', ''printer'', ''pyramid'',
      ''queue'', ''router'', ''server'', ''speech'', ''sphere'', ''storage'',
      ''switch-module'', ''tower'', ''truck-2'', ''truck'', ''user'', ''vm'']"

definition LEGACY_ICON_MAP :: "(string \<times> string) list" where
  "LEGACY_ICON_MAP =
     [(''person'', ''user''),
      (''web_app'', ''desktop''),
      (''webapp'', ''desktop''),
      (''api'', ''server''),
      (''load_balancer'', ''loadbalancer''),
      (''loadbalancer'', ''loadbalancer''),
      (''microservice'', ''cube''),
      (''redis'', ''cache''),
      (''authentication'', ''lock''),
      (''shield'', ''firewall''),
      (''gateway'', ''router''),
      (''bank'', ''paymentcard''),
      (''database'', ''storage''),
      (''notification'', ''mail''),
      (''monitoring'', ''desktop''),
      (''cdn'', ''cloud''),
      (''mobile'', ''mobiledevice''),
      (''backup'', ''storage''),
      (''analytics'', ''diamond''),
      (''logs'', ''document'')]"

text \<open>
  \<^verbatim>\<open>LEGACY_ICON_MAP[k]\<close> on the object literal: an alias of the table, or, for the two
  all-lower-case names that \<^verbatim>\<open>Object.prototype\<close> defines, an inherited value that is
  truthy and not a string, or \<^verbatim>\<open>undefined\<close>.
\<close>

datatype legacy_entry = Alias string | Inherited | Absent

definition legacy_lookup :: "string \<Rightarrow> legacy_entry" where
  "legacy_lookup k =
     (case map_of LEGACY_ICON_MAP k of
        Some m \<Rightarrow> Alias m
      | None \<Rightarrow> (if k = ''constructor'' \<or> k = ''__proto__'' then Inherited else Absent))"

definition isSpaceOrHyphen :: "char \<Rightarrow> bool" where
  "isSpaceOrHyphen c = (isWhiteSpace c \<or> c = CHR ''-'')"

definition isSeparator :: "char \<Rightarrow> bool" where
  "isSeparator c = (c = CHR ''-'' \<or> c = CHR ''_'' \<or> isWhiteSpace c)"

text \<open>
  \<^verbatim>\<open>buildIconIdSet\<close>: the built-in catalogue plus \<^verbatim>\<open>String(icon.id)\<close> of every existing
  icon whose \<^verbatim>\<open>id\<close> is truthy.
\<close>

fun add_icon_ids :: "platform \<Rightarrow> jsval list \<Rightarrow> string set \<Rightarrow> error + string set" where
  "add_icon_ids P [] ids = Inr ids"
| "add_icon_ids P (icon # icons) ids =
     (if truthy (get_prop icon ''id'')
      then (case ToString P (get_prop icon ''id'') of
              Inl e \<Rightarrow> Inl e
            | Inr s \<Rightarrow> add_icon_ids P icons (insert s ids))
      else add_icon_ids P icons ids)"

definition buildIconIdSet :: "platform \<Rightarrow> jsval \<Rightarrow> error + string set" where
  "buildIconIdSet P existingIcons =
     (case existingIcons of
        JArr icons \<Rightarrow> add_icon_ids P icons (set AVAILABLE_ICON_IDS)
      | _ \<Rightarrow> Inr (set AVAILABLE_ICON_IDS))"

text \<open>
  \<^verbatim>\<open>normalizeIconId\<close>. Its argument is a string at its only call site, and
  \<^verbatim>\<open>toSafeString\<close> returns a string unchanged.
\<close>

definition normalizeIconId :: "string \<Rightarrow> string set \<Rightarrow> string" where
  "normalizeIconId iconId iconIds =
     (let raw = toLowerCase (trim iconId) in
      if raw = [] then ''block''
      else if raw \<in> iconIds then raw
      else
        let normalizedKey = replace_runs isSpaceOrHyphen ''_'' raw;
            mapped = (case legacy_lookup normalizedKey of
                        Absent \<Rightarrow> legacy_lookup raw
                      | hit \<Rightarrow> hit);
            hyphenCandidate = underscores_to_hyphens raw;
            compactCandidate = replace_runs isSeparator [] raw
        in (case mapped of
              Alias m \<Rightarrow>
                if m \<in> iconIds then m
                else if hyphenCandidate \<in> iconIds then hyphenCandidate
                else if compactCandidate \<in> iconIds then compactCandidate
                else ''block''
            | _ \<Rightarrow>
                if hyphenCandidate \<in> iconIds then hyphenCandidate
                else if compactCandidate \<in> iconIds then compactCandidate
                else ''block''))"

section \<open>View normalizer\<close>

type_synonym position = "jsnum \<times> jsnum \<times> jsnum"
type_synonym connection = "jsnum \<times> jsnum"
type_synonym view = "position list \<times> connection list"
type_synonym item = "string \<times> string \<times> string"

text \<open>
  \<^verbatim>\<open>Math.ceil(Math.sqrt(n))\<close> for an array length \<open>n\<close>: the least \<open>c\<close> with \<open>n \<le> c * c\<close>
  (the correctly rounded square root of an integer below \<open>2^53\<close> is an integer only
  when exact, so the floating-point result is the mathematical one).
\<close>

definition ceil_sqrt :: "nat \<Rightarrow> nat" where
  "ceil_sqrt n = (case List.find (\<lambda>c. n \<le> c * c) [0..<Suc n] of Some c \<Rightarrow> c | None \<Rightarrow> n)"

text \<open>The \<^verbatim>\<open>for\<close> loop of \<^verbatim>\<open>autoLayoutPositions\<close> over the indices still to visit, with
  the counter \<^verbatim>\<open>placed\<close>.\<close>

fun auto_loop :: "nat \<Rightarrow> jsnum set \<Rightarrow> nat list \<Rightarrow> nat \<Rightarrow> position list" where
  "auto_loop columns usedIndices [] placed = []"
| "auto_loop columns usedIndices (index # rest) placed =
     (if Fin (of_nat index) \<in> usedIndices then auto_loop columns usedIndices rest placed
      else (Fin (of_nat index),
            Fin (of_nat ((placed mod columns) * 4)),
            Fin (of_nat ((placed div columns) * 4)))
           # auto_loop columns usedIndices rest (Suc placed))"

definition autoLayoutPositions :: "nat \<Rightarrow> jsnum set \<Rightarrow> position list" where
  "autoLayoutPositions itemCount usedIndices =
     (if itemCount \<le> 0 then []
      else auto_loop (max 4 (ceil_sqrt itemCount)) usedIndices [0..<itemCount] 0)"

text \<open>One iteration of the position loop of \<^verbatim>\<open>normalizeView\<close> on the state
  \<^verbatim>\<open>(positions, usedIndices)\<close>; \<^verbatim>\<open>continue\<close> returns the state unchanged.\<close>

definition position_step ::
  "platform \<Rightarrow> nat \<Rightarrow> jsval \<Rightarrow> position list \<times> jsnum set \<Rightarrow> error + (position list \<times> jsnum set)" where
  "position_step P itemCount pos st =
     (case pos of
        JArr es \<Rightarrow>
          if length es < 3 then Inr st
          else
            (case ToNumber P (at_index es 0) of
               Inl e \<Rightarrow> Inl e
             | Inr itemIndex \<Rightarrow>
            (case ToNumber P (at_index es 1) of
               Inl e \<Rightarrow> Inl e
             | Inr x \<Rightarrow>
            (case ToNumber P (at_index es 2) of
               Inl e \<Rightarrow> Inl e
             | Inr y \<Rightarrow>
                 if \<not> isFinite itemIndex \<or> \<not> isFinite x \<or> \<not> isFinite y then Inr st
                 else if num_lt itemIndex (Fin 0) \<or> num_ge itemIndex (Fin (of_nat itemCount))
                         \<or> itemIndex \<in> snd st
                 then Inr st
                 else Inr (fst st @ [(itemIndex, Math_round x, Math_round y)],
                           insert itemIndex (snd st)))))
      | _ \<Rightarrow> Inr st)"

fun positions_loop ::
  "platform \<Rightarrow> nat \<Rightarrow> jsval list \<Rightarrow> position list \<times> jsnum set \<Rightarrow> error + (position list \<times> jsnum set)" where
  "positions_loop P itemCount [] st = Inr st"
| "positions_loop P itemCount (pos # rest) st =
     (case position_step P itemCount pos st of
        Inl e \<Rightarrow> Inl e
      | Inr st' \<Rightarrow> positions_loop P itemCount rest st')"

definition connection_step ::
  "platform \<Rightarrow> nat \<Rightarrow> jsval \<Rightarrow> connection list \<Rightarrow> error + connection list" where
  "connection_step P itemCount conn connections =
     (case conn of
        JArr es \<Rightarrow>
          if length es < 2 then Inr connections
          else
            (case ToNumber P (at_index es 0) of
               Inl e \<Rightarrow> Inl e
             | Inr fromIndex \<Rightarrow>
            (case ToNumber P (at_index es 1) of
               Inl e \<Rightarrow> Inl e
             | Inr toIndex \<Rightarrow>
                 if \<not> isFinite fromIndex \<or> \<not> isFinite toIndex then Inr connections
                 else if num_lt fromIndex (Fin 0) \<or> num_ge fromIndex (Fin (of_nat itemCount))
                 then Inr connections
                 else if num_lt toIndex (Fin 0) \<or> num_ge toIndex (Fin (of_nat itemCount))
                 then Inr connections
                 else Inr (connections @ [(fromIndex, toIndex)])))
      | _ \<Rightarrow> Inr connections)"

fun connections_loop ::
  "platform \<Rightarrow> nat \<Rightarrow> jsval list \<Rightarrow> connection list \<Rightarrow> error + connection list" where
  "connections_loop P itemCount [] connections = Inr connections"
| "connections_loop P itemCount (conn # rest) connections =
     (case connection_step P itemCount conn connections of
        Inl e \<Rightarrow> Inl e
      | Inr connections' \<Rightarrow> connections_loop P itemCount rest connections')"

text \<open>\<^verbatim>\<open>Array.isArray(v) ? v : []\<close>.\<close>

definition array_or_empty :: "jsval \<Rightarrow> jsval list" where
  "array_or_empty v = (case v of JArr xs \<Rightarrow> xs | _ \<Rightarrow> [])"

definition normalizeView :: "platform \<Rightarrow> jsval \<Rightarrow> nat \<Rightarrow> bool \<Rightarrow> error + view" where
  "normalizeView P view itemCount ensureAllItems =
     (let rawView = array_or_empty view;
          rawPositions = array_or_empty (at_index rawView 0);
          rawConnections = array_or_empty (at_index rawView 1)
      in (case positions_loop P itemCount rawPositions ([], {}) of
            Inl e \<Rightarrow> Inl e
          | Inr (positions, usedIndices) \<Rightarrow>
              (let positions' =
                     (if ensureAllItems
                      then positions @ autoLayoutPositions itemCount usedIndices
                      else positions)
               in (case connections_loop P itemCount rawConnections [] of
                     Inl e \<Rightarrow> Inl e
                   | Inr connections \<Rightarrow> Inr (positions', connections)))))"

section \<open>Diagram normalizer\<close>

record compact_diagram =
  diagram_t :: string
  diagram_i :: "item list"
  diagram_v :: "view list"
  diagram_meta :: "string \<times> string"

definition DEFAULT_COMPACT_META :: "string \<times> string" where
  "DEFAULT_COMPACT_META = (''compact'', ''1.0'')"

text \<open>The callback of \<^verbatim>\<open>rawItems.map\<close>.\<close>

definition normalize_item :: "platform \<Rightarrow> string set \<Rightarrow> nat \<Rightarrow> jsval \<Rightarrow> error + item" where
  "normalize_item P iconIds index item =
     (let rawItem = array_or_empty item in
      (case toSafeString P (at_index rawItem 0) of
         Inl e \<Rightarrow> Inl e
       | Inr s0 \<Rightarrow>
      (case toSafeString P (at_index rawItem 1) of
         Inl e \<Rightarrow> Inl e
       | Inr s1 \<Rightarrow>
      (case toSafeString P (at_index rawItem 2) of
         Inl e \<Rightarrow> Inl e
       | Inr s2 \<Rightarrow>
           Inr (if trim s0 = [] then ''Item '' @ show_nat (index + 1) else trim s0,
                normalizeIconId s1 iconIds,
                s2)))))"

fun normalize_items :: "platform \<Rightarrow> string set \<Rightarrow> nat \<Rightarrow> jsval list \<Rightarrow> error + item list" where
  "normalize_items P iconIds index [] = Inr []"
| "normalize_items P iconIds index (item # rest) =
     (case normalize_item P iconIds index item of
        Inl e \<Rightarrow> Inl e
      | Inr it \<Rightarrow>
          (case normalize_items P iconIds (Suc index) rest of
             Inl e \<Rightarrow> Inl e
           | Inr its \<Rightarrow> Inr (it # its)))"

text \<open>The callback of the \<^verbatim>\<open>map\<close> over the views: full coverage for index 0 only.\<close>

fun normalize_views :: "platform \<Rightarrow> nat \<Rightarrow> nat \<Rightarrow> jsval list \<Rightarrow> error + view list" where
  "normalize_views P itemCount index [] = Inr []"
| "normalize_views P itemCount index (view # rest) =
     (case normalizeView P view itemCount (index = 0) of
        Inl e \<Rightarrow> Inl e
      | Inr w \<Rightarrow>
          (case normalize_views P itemCount (Suc index) rest of
             Inl e \<Rightarrow> Inl e
           | Inr ws \<Rightarrow> Inr (w # ws)))"

definition normalizeCompactDiagram :: "platform \<Rightarrow> jsval \<Rightarrow> jsval \<Rightarrow> error + compact_diagram" where
  "normalizeCompactDiagram P diagram existingIcons =
     (case buildIconIdSet P existingIcons of
        Inl e \<Rightarrow> Inl e
      | Inr iconIds \<Rightarrow>
     (case toSafeString P (get_prop diagram ''t'') of
        Inl e \<Rightarrow> Inl e
      | Inr ts \<Rightarrow>
          (let title = (if trim ts = [] then ''Untitled'' else trim ts);
               rawItems = array_or_empty (get_prop diagram ''i'')
           in (case normalize_items P iconIds 0 rawItems of
                 Inl e \<Rightarrow> Inl e
               | Inr items \<Rightarrow>
                   (let rawViews = array_or_empty (get_prop diagram ''v'')
                    in (case normalize_views P (length items) 0
                               (if rawViews \<noteq> [] then rawViews else [JArr []]) of
                          Inl e \<Rightarrow> Inl e
                        | Inr views \<Rightarrow>
                            Inr \<lparr>diagram_t = title, diagram_i = items, diagram_v = views,
                                 diagram_meta = DEFAULT_COMPACT_META\<rparr>))))))"

text \<open>The returned object as a value again, for feeding it back to the normalizer.\<close>

definition position_js :: "position \<Rightarrow> jsval" where
  "position_js p = (case p of (itemIndex, x, y) \<Rightarrow> JArr [JNum itemIndex, JNum x, JNum y])"

definition connection_js :: "connection \<Rightarrow> jsval" where
  "connection_js c = (case c of (fromIndex, toIndex) \<Rightarrow> JArr [JNum fromIndex, JNum toIndex])"

definition view_js :: "view \<Rightarrow> jsval" where
  "view_js w = JArr [JArr (map position_js (fst w)), JArr (map connection_js (snd w))]"

definition item_js :: "item \<Rightarrow> jsval" where
  "item_js it = (case it of (name, icon, description) \<Rightarrow> JArr [JStr name, JStr icon, JStr description])"

definition diagram_js :: "compact_diagram \<Rightarrow> jsval" where
  "diagram_js d =
     JObj [(''t'', JStr (diagram_t d)),
           (''i'', JArr (map item_js (diagram_i d))),
           (''v'', JArr (map view_js (diagram_v d))),
           (''_'', JObj [(''f'', JStr (fst (diagram_meta d))), (''v'', JStr (snd (diagram_meta d)))])]"

section \<open>Schema validator\<close>

definition is_string :: "jsval \<Rightarrow> bool" where
  "is_string v = (case v of JStr s \<Rightarrow> True | _ \<Rightarrow> False)"

definition is_number :: "jsval \<Rightarrow> bool" where
  "is_number v = (case v of JNum n \<Rightarrow> True | _ \<Rightarrow> False)"

definition is_array :: "jsval \<Rightarrow> bool" where
  "is_array v = (case v of JArr xs \<Rightarrow> True | _ \<Rightarrow> False)"

text \<open>\<^verbatim>\<open>typeof v !== 'string' || !v.trim()\<close>.\<close>

definition blank_or_not_string :: "jsval \<Rightarrow> bool" where
  "blank_or_not_string v = (case v of JStr s \<Rightarrow> trim s = [] | _ \<Rightarrow> True)"

text \<open>The body of the loop over the items; \<open>Inl\<close> carries the message of the thrown
  \<^verbatim>\<open>Error\<close>.\<close>

definition validate_item :: "nat \<Rightarrow> jsval \<Rightarrow> string + unit" where
  "validate_item index item =
     (case item of
        JArr es \<Rightarrow>
          if length es < 2
          then Inl (''Item at index '' @ show_nat index @ '' must be [name, icon, description?]'')
          else if blank_or_not_string (at_index es 0)
          then Inl (''Item at index '' @ show_nat index @ '' must have a name'')
          else if blank_or_not_string (at_index es 1)
          then Inl (''Item at index '' @ show_nat index @ '' must have an icon ID'')
          else if at_index es 2 \<noteq> JUndefined \<and> \<not> is_string (at_index es 2)
          then Inl (''Item description at index '' @ show_nat index
                    @ '' must be a string if provided'')
          else Inr ()
      | _ \<Rightarrow> Inl (''Item at index '' @ show_nat index @ '' must be [name, icon, description?]''))"

fun validate_items :: "nat \<Rightarrow> jsval list \<Rightarrow> string + unit" where
  "validate_items index [] = Inr ()"
| "validate_items index (item # rest) =
     (case validate_item index item of
        Inl m \<Rightarrow> Inl m
      | Inr u \<Rightarrow> validate_items (Suc index) rest)"

definition validate_position :: "nat \<Rightarrow> nat \<Rightarrow> jsval \<Rightarrow> string + unit" where
  "validate_position viewIndex posIndex pos =
     (case pos of
        JArr es \<Rightarrow>
          if length es < 3
          then Inl (''Position at index '' @ show_nat posIndex @ '' in view ''
                    @ show_nat viewIndex @ '' must be [itemIndex, x, y]'')
          else if \<not> is_number (at_index es 0) \<or> \<not> is_number (at_index es 1)
                  \<or> \<not> is_number (at_index es 2)
          then Inl (''Position at index '' @ show_nat posIndex @ '' in view ''
                    @ show_nat viewIndex @ '' must contain numbers'')
          else Inr ()
      | _ \<Rightarrow> Inl (''Position at index '' @ show_nat posIndex @ '' in view ''
                  @ show_nat viewIndex @ '' must be [itemIndex, x, y]''))"

fun validate_positions :: "nat \<Rightarrow> nat \<Rightarrow> jsval list \<Rightarrow> string + unit" where
  "validate_positions viewIndex posIndex [] = Inr ()"
| "validate_positions viewIndex posIndex (pos # rest) =
     (case validate_position viewIndex posIndex pos of
        Inl m \<Rightarrow> Inl m
      | Inr u \<Rightarrow> validate_positions viewIndex (Suc posIndex) rest)"

definition validate_connection :: "nat \<Rightarrow> nat \<Rightarrow> jsval \<Rightarrow> string + unit" where
  "validate_connection viewIndex connIndex conn =
     (case conn of
        JArr es \<Rightarrow>
          if length es < 2
          then Inl (''Connection at index '' @ show_nat connIndex @ '' in view ''
                    @ show_nat viewIndex @ '' must be [fromIndex, toIndex]'')
          else if \<not> is_number (at_index es 0) \<or> \<not> is_number (at_index es 1)
          then Inl (''Connection at index '' @ show_nat connIndex @ '' in view ''
                    @ show_nat viewIndex @ '' must contain numbers'')
          else Inr ()
      | _ \<Rightarrow> Inl (''Connection at index '' @ show_nat connIndex @ '' in view ''
                  @ show_nat viewIndex @ '' must be [fromIndex, toIndex]''))"

fun validate_connections :: "nat \<Rightarrow> nat \<Rightarrow> jsval list \<Rightarrow> string + unit" where
  "validate_connections viewIndex connIndex [] = Inr ()"
| "validate_connections viewIndex connIndex (conn # rest) =
     (case validate_connection viewIndex connIndex conn of
        Inl m \<Rightarrow> Inl m
      | Inr u \<Rightarrow> validate_connections viewIndex (Suc connIndex) rest)"

definition validate_view :: "nat \<Rightarrow> jsval \<Rightarrow> string + unit" where
  "validate_view viewIndex view =
     (case view of
        JArr es \<Rightarrow>
          if length es < 2
          then Inl (''View at index '' @ show_nat viewIndex @ '' must be [positions, connections]'')
          else
            (case (at_index es 0, at_index es 1) of
               (JArr positions, JArr connections) \<Rightarrow>
                 (case validate_positions viewIndex 0 positions of
                    Inl m \<Rightarrow> Inl m
                  | Inr u \<Rightarrow> validate_connections viewIndex 0 connections)
             | _ \<Rightarrow> Inl (''View at index '' @ show_nat viewIndex
                         @ '' must contain arrays for positions and connections''))
      | _ \<Rightarrow> Inl (''View at index '' @ show_nat viewIndex @ '' must be [positions, connections]''))"

fun validate_views :: "nat \<Rightarrow> jsval list \<Rightarrow> string + unit" where
  "validate_views viewIndex [] = Inr ()"
| "validate_views viewIndex (view # rest) =
     (case validate_view viewIndex view of
        Inl m \<Rightarrow> Inl m
      | Inr u \<Rightarrow> validate_views (Suc viewIndex) rest)"

text \<open>\<^verbatim>\<open>!diagram || typeof diagram !== 'object'\<close>: only arrays and objects pass.
  \<open>quoted\<close> puts a word between the double quotes of the messages.\<close>

definition not_an_object :: "jsval \<Rightarrow> bool" where
  "not_an_object v = (case v of JArr xs \<Rightarrow> False | JObj kvs \<Rightarrow> False | _ \<Rightarrow> True)"

definition quoted :: "string \<Rightarrow> string" where
  "quoted s = [CHR 0x22] @ s @ [CHR 0x22]"

definition validateAICompactDiagram :: "jsval \<Rightarrow> string + unit" where
  "validateAICompactDiagram diagram =
     (if not_an_object diagram then Inl ''Diagram must be a JSON object''
      else if \<not> truthy (get_prop diagram ''t'') \<or> \<not> is_string (get_prop diagram ''t'')
      then Inl (''Diagram must have a title string in '' @ quoted ''t'')
      else if \<not> is_array (get_prop diagram ''i'') \<or> array_or_empty (get_prop diagram ''i'') = []
      then Inl (''Diagram must have at least one item in '' @ quoted ''i'')
      else
        (case validate_items 0 (array_or_empty (get_prop diagram ''i'')) of
           Inl m \<Rightarrow> Inl m
         | Inr u \<Rightarrow>
             if \<not> is_array (get_prop diagram ''v'')
             then Inl (''Diagram must have a views array in '' @ quoted ''v'')
             else validate_views 0 (array_or_empty (get_prop diagram ''v''))))"

section \<open>Specification-side definitions\<close>

text \<open>
  The candidates the icon resolver tests, in the words of the specification: the trimmed,
  lower-cased label; the legacy alias of its separator-normalized form (or of the label
  itself); the hyphenated form; the compacted form.
\<close>

definition icon_candidates :: "string \<Rightarrow> string list" where
  "icon_candidates iconId =
     (let raw = toLowerCase (trim iconId) in
      [raw]
      @ (case legacy_lookup (replace_runs isSpaceOrHyphen ''_'' raw) of
           Alias m \<Rightarrow> [m]
         | Inherited \<Rightarrow> []
         | Absent \<Rightarrow> (case legacy_lookup raw of Alias m \<Rightarrow> [m] | _ \<Rightarrow> []))
      @ [underscores_to_hyphens raw, replace_runs isSeparator [] raw])"

text \<open>
  The resolver in the words of the specification: \<open>block\<close> for a blank label, otherwise
  the first candidate that is a known icon, and \<open>block\<close> when none is.
\<close>

definition first_known_candidate :: "string \<Rightarrow> string set \<Rightarrow> string" where
  "first_known_candidate iconId iconIds =
     (if toLowerCase (trim iconId) = [] then ''block''
      else (case List.find (\<lambda>m. m \<in> iconIds) (icon_candidates iconId) of
              Some m \<Rightarrow> m
            | None \<Rightarrow> ''block''))"

text \<open>An item index inside \<open>[0, itemCount)\<close>: a finite number in that range.\<close>

definition in_range :: "nat \<Rightarrow> jsnum \<Rightarrow> bool" where
  "in_range itemCount a = (case a of Fin q \<Rightarrow> 0 \<le> q \<and> q < of_nat itemCount | _ \<Rightarrow> False)"

text \<open>
  The position a raw entry stands for, taken on its own: an array of at least three
  elements whose first three coerce to finite numbers, the first inside the range; the
  coordinates rounded.
\<close>

definition position_entry :: "platform \<Rightarrow> nat \<Rightarrow> jsval \<Rightarrow> position option" where
  "position_entry P itemCount pos =
     (case pos of
        JArr es \<Rightarrow>
          if 3 \<le> length es
          then (case (ToNumber P (at_index es 0), ToNumber P (at_index es 1),
                      ToNumber P (at_index es 2)) of
                  (Inr a, Inr x, Inr y) \<Rightarrow>
                    if isFinite a \<and> isFinite x \<and> isFinite y \<and> in_range itemCount a
                    then Some (a, Math_round x, Math_round y)
                    else None
                | _ \<Rightarrow> None)
          else None
      | _ \<Rightarrow> None)"

text \<open>The item index of the position a raw entry stands for.\<close>

definition entry_index :: "platform \<Rightarrow> nat \<Rightarrow> jsval \<Rightarrow> jsnum option" where
  "entry_index P itemCount pos = map_option fst (position_entry P itemCount pos)"

text \<open>
  First occurrence wins: entry \<open>k\<close> is kept when it stands for a position and no earlier
  entry stands for a position of the same item index.
\<close>

definition first_occurrences :: "platform \<Rightarrow> nat \<Rightarrow> jsval list \<Rightarrow> position list" where
  "first_occurrences P itemCount raw =
     concat (map (\<lambda>k. case position_entry P itemCount (raw ! k) of
                         None \<Rightarrow> []
                       | Some p \<Rightarrow>
                           if list_ex (\<lambda>j. entry_index P itemCount (raw ! j) = Some (fst p)) [0..<k]
                           then [] else [p])
                 [0..<length raw])"

text \<open>The connection a raw entry stands for: an array of at least two elements whose
  first two coerce to finite numbers inside the range.\<close>

definition connection_entry :: "platform \<Rightarrow> nat \<Rightarrow> jsval \<Rightarrow> connection option" where
  "connection_entry P itemCount conn =
     (case conn of
        JArr es \<Rightarrow>
          if 2 \<le> length es
          then (case (ToNumber P (at_index es 0), ToNumber P (at_index es 1)) of
                  (Inr a, Inr b) \<Rightarrow>
                    if in_range itemCount a \<and> in_range itemCount b then Some (a, b) else None
                | _ \<Rightarrow> None)
          else None
      | _ \<Rightarrow> None)"

text \<open>An entry on which the loop throws: an array long enough to be inspected, one of
  whose first \<open>k\<close> elements cannot be converted to a number.\<close>

definition entry_throws :: "platform \<Rightarrow> nat \<Rightarrow> jsval \<Rightarrow> bool" where
  "entry_throws P k entry =
     (case entry of
        JArr es \<Rightarrow> k \<le> length es \<and> list_ex (\<lambda>i. ToNumber P (at_index es i) = Inl TypeError) [0..<k]
      | _ \<Rightarrow> False)"

text \<open>A value none of whose objects has an own property \<open>toString\<close>: every coercion of
  such a value succeeds.\<close>

fun plain :: "jsval \<Rightarrow> bool" where
  "plain (JArr xs) = (\<forall>x \<in> set xs. plain x)"
| "plain (JObj kvs) = (map_of kvs ''toString'' = None \<and> (\<forall>kv \<in> set kvs. plain (snd kv)))"
| "plain v = True"

text \<open>A number that is an integer.\<close>

definition is_integer :: "jsnum \<Rightarrow> bool" where
  "is_integer a = (case a of Fin q \<Rightarrow> q = of_int \<lfloor>q\<rfloor> | _ \<Rightarrow> False)"

text \<open>A string with no white space at either end.\<close>

definition trimmed :: "string \<Rightarrow> bool" where
  "trimmed s = (s = [] \<or> (\<not> isWhiteSpace (hd s) \<and> \<not> isWhiteSpace (last s)))"

text \<open>A position as the normalizer emits it: item index inside the range, integer
  coordinates.\<close>

definition emitted_position :: "nat \<Rightarrow> position \<Rightarrow> bool" where
  "emitted_position itemCount p =
     (in_range itemCount (fst p) \<and> is_integer (fst (snd p)) \<and> is_integer (snd (snd p)))"

section \<open>Properties\<close>

section \<open>Icon resolver: membership and case\<close>

lemma add_icon_ids_mono: "add_icon_ids P icons ids = Inr ids' \<Longrightarrow> ids \<subseteq> ids'"
  by (induction icons arbitrary: ids) (auto split: if_splits sum.splits)

lemma available_subset: "buildIconIdSet P ex = Inr ids \<Longrightarrow> set AVAILABLE_ICON_IDS \<subseteq> ids"
  by (auto simp: buildIconIdSet_def split: jsval.splits dest: add_icon_ids_mono)

lemma block_available: "''block'' \<in> set AVAILABLE_ICON_IDS"
  by (simp add: AVAILABLE_ICON_IDS_def)

lemma block_known: "buildIconIdSet P ex = Inr ids \<Longrightarrow> ''block'' \<in> ids"
  using available_subset block_available by blast

lemma normalizeIconId_member: "''block'' \<in> ids \<Longrightarrow> normalizeIconId s ids \<in> ids"
  by (simp add: normalizeIconId_def Let_def split: legacy_entry.splits)

lemma normalizeIconId_blank: "trim s = [] \<Longrightarrow> normalizeIconId s ids = ''block''"
  by (simp add: normalizeIconId_def toLowerCase_def)

lemma normalizeIconId_cases:
  "normalizeIconId s ids = ''block'' \<or> normalizeIconId s ids \<in> set (icon_candidates s) \<inter> ids"
  by (simp add: normalizeIconId_def icon_candidates_def Let_def split: legacy_entry.splits)

lemma normalizeIconId_default:
  "set (icon_candidates s) \<inter> ids = {} \<Longrightarrow> normalizeIconId s ids = ''block''"
  using normalizeIconId_cases [of s ids] by auto

lemma lower_char_not_upper: "\<not> isUpper (lower_char c)"
proof (cases "isUpper c")
  case False
  then show ?thesis by (simp add: lower_char_def)
next
  case True
  have "of_char (char_of (of_char c + (32::nat))) = (of_char c + 32 :: nat) mod 256"
    by simp
  with True show ?thesis
    unfolding lower_char_def isUpper_def Let_def by auto
qed

lemma toLowerCase_no_upper: "c \<in> set (toLowerCase s) \<Longrightarrow> \<not> isUpper c"
  by (auto simp: toLowerCase_def lower_char_not_upper)

lemma set_replace_runs: "set (replace_runs p r s) \<subseteq> set r \<union> set s"
proof (induction p r s rule: replace_runs.induct)
  case (1 p r)
  then show ?case by simp
next
  case (2 p r c cs)
  then show ?case using set_dropWhileD [of _ p cs] by auto
qed

lemma set_underscores_to_hyphens:
  "set (underscores_to_hyphens s) \<subseteq> insert CHR ''-'' (set s)"
  by (auto simp: underscores_to_hyphens_def)

lemma hyphen_not_upper: "\<not> isUpper CHR ''-''"
  by (simp add: isUpper_def)

lemma alias_values_lower: "\<forall>m \<in> snd ` set LEGACY_ICON_MAP. \<forall>c \<in> set m. \<not> isUpper c"
  by (simp add: LEGACY_ICON_MAP_def isUpper_def)

lemma legacy_lookup_alias: "legacy_lookup k = Alias m \<Longrightarrow> m \<in> snd ` set LEGACY_ICON_MAP"
  by (auto simp: legacy_lookup_def split: option.splits if_splits dest!: map_of_SomeD intro: rev_image_eqI)

lemma candidates_lower:
  assumes "m \<in> set (icon_candidates s)" and "c \<in> set m"
  shows "\<not> isUpper c"
proof -
  let ?raw = "toLowerCase (trim s)"
  have raw: "\<And>c. c \<in> set ?raw \<Longrightarrow> \<not> isUpper c" by (rule toLowerCase_no_upper)
  from assms(1) consider "m = ?raw" | k where "legacy_lookup k = Alias m"
    | "m = underscores_to_hyphens ?raw" | "m = replace_runs isSeparator [] ?raw"
    by (auto simp: icon_candidates_def Let_def split: legacy_entry.splits)
  then show ?thesis
  proof cases
    case 1 with raw assms(2) show ?thesis by simp
  next
    case 2
    with alias_values_lower legacy_lookup_alias assms(2) show ?thesis by blast
  next
    case 3
    with set_underscores_to_hyphens [of ?raw] assms(2) raw hyphen_not_upper show ?thesis by auto
  next
    case 4
    with set_replace_runs [of isSeparator "[]" ?raw] assms(2) raw show ?thesis by auto
  qed
qed

lemma block_lower: "c \<in> set ''block'' \<Longrightarrow> \<not> isUpper c"
  by (auto simp: isUpper_def)

lemma normalizeIconId_lower: "c \<in> set (normalizeIconId s ids) \<Longrightarrow> \<not> isUpper c"
  using normalizeIconId_cases [of s ids] candidates_lower block_lower
  by (metis IntD1)

section \<open>Icon resolver: claims\<close>

text \<open>
  Claim C5. The icon resolver is total and lands in the known-icon set: for every string
  and every set that \<open>buildIconIdSet\<close> returns, \<open>normalizeIconId\<close> (a function with no
  failing branch) yields a member of that set, and a blank label yields \<open>block\<close>.
\<close>

theorem resolver_returns_known_icon:
  "buildIconIdSet P existingIcons = Inr iconIds \<Longrightarrow>
     normalizeIconId iconId iconIds \<in> iconIds
     \<and> (trim iconId = [] \<longrightarrow> normalizeIconId iconId iconIds = ''block'')"
  using block_known normalizeIconId_member normalizeIconId_blank by blast

text \<open>The theorem at a host icon \<open>MyIcon\<close>, a blank label and a label with noise.\<close>

theorem resolver_returns_known_icon_witness:
  "buildIconIdSet example_platform (JArr [JObj [(''id'', JStr ''MyIcon'')]])
     = Inr (insert ''MyIcon'' (set AVAILABLE_ICON_IDS))
   \<and> trim ''  '' = []
   \<and> normalizeIconId ''  '' (insert ''MyIcon'' (set AVAILABLE_ICON_IDS)) = ''block''
   \<and> normalizeIconId ''Load-Balancer'' (insert ''MyIcon'' (set AVAILABLE_ICON_IDS))
       \<in> insert ''MyIcon'' (set AVAILABLE_ICON_IDS)"
proof -
  have built: "buildIconIdSet example_platform (JArr [JObj [(''id'', JStr ''MyIcon'')]])
     = Inr (insert ''MyIcon'' (set AVAILABLE_ICON_IDS))"
    by (simp add: buildIconIdSet_def get_prop_def truthy_def)
  have blank: "trim ''  '' = []"
    by code_simp
  from resolver_returns_known_icon [OF built, of "''  ''"]
       resolver_returns_known_icon [OF built, of "''Load-Balancer''"] built blank
  show ?thesis by blast
qed

section \<open>Schema validator: fail-fast\<close>

lemma validate_items_append:
  "validate_items k (xs @ ys) =
     (case validate_items k xs of Inl m \<Rightarrow> Inl m | Inr u \<Rightarrow> validate_items (k + length xs) ys)"
  by (induction xs arbitrary: k) (auto split: sum.splits)

lemma validate_views_append:
  "validate_views k (vs @ ws) =
     (case validate_views k vs of Inl m \<Rightarrow> Inl m | Inr u \<Rightarrow> validate_views (k + length vs) ws)"
  by (induction vs arbitrary: k) (auto split: sum.splits)

lemma validate_items_first_violation:
  "validate_items 0 xs = Inr () \<Longrightarrow> validate_item (length xs) y = Inl m \<Longrightarrow>
     validate_items 0 (xs @ y # ys) = Inl m"
  by (simp add: validate_items_append)

lemma validate_views_first_violation:
  "validate_views 0 vs = Inr () \<Longrightarrow> validate_view (length vs) w = Inl m \<Longrightarrow>
     validate_views 0 (vs @ w # ws) = Inl m"
  by (simp add: validate_views_append)

lemma validate_not_object:
  "not_an_object d \<Longrightarrow> validateAICompactDiagram d = Inl ''Diagram must be a JSON object''"
  by (simp add: validateAICompactDiagram_def)

lemma validate_title:
  "\<not> not_an_object d \<Longrightarrow> \<not> truthy (get_prop d ''t'') \<or> \<not> is_string (get_prop d ''t'') \<Longrightarrow>
     validateAICompactDiagram d = Inl (''Diagram must have a title string in '' @ quoted ''t'')"
  by (auto simp add: validateAICompactDiagram_def)

lemma validate_no_items:
  "\<not> not_an_object d \<Longrightarrow> truthy (get_prop d ''t'') \<Longrightarrow> is_string (get_prop d ''t'') \<Longrightarrow>
   \<not> is_array (get_prop d ''i'') \<or> get_prop d ''i'' = JArr [] \<Longrightarrow>
     validateAICompactDiagram d = Inl (''Diagram must have at least one item in '' @ quoted ''i'')"
  by (auto simp add: validateAICompactDiagram_def array_or_empty_def)

lemma validate_item_violation:
  "\<not> not_an_object d \<Longrightarrow> truthy (get_prop d ''t'') \<Longrightarrow> is_string (get_prop d ''t'') \<Longrightarrow>
   get_prop d ''i'' = JArr (xs @ y # ys) \<Longrightarrow> validate_items 0 xs = Inr () \<Longrightarrow>
   validate_item (length xs) y = Inl m \<Longrightarrow>
     validateAICompactDiagram d = Inl m"
  by (simp add: validateAICompactDiagram_def array_or_empty_def is_array_def
        validate_items_first_violation)

lemma validate_view_violation:
  "\<not> not_an_object d \<Longrightarrow> truthy (get_prop d ''t'') \<Longrightarrow> is_string (get_prop d ''t'') \<Longrightarrow>
   get_prop d ''i'' = JArr (x # xs) \<Longrightarrow> validate_items 0 (x # xs) = Inr () \<Longrightarrow>
   get_prop d ''v'' = JArr (vs @ w # ws) \<Longrightarrow> validate_views 0 vs = Inr () \<Longrightarrow>
   validate_view (length vs) w = Inl m \<Longrightarrow>
     validateAICompactDiagram d = Inl m"
  using validate_views_first_violation [of vs w m ws]
  by (simp add: validateAICompactDiagram_def array_or_empty_def is_array_def)

lemma validate_empty_object:
  "validateAICompactDiagram (JObj []) = Inl (''Diagram must have a title string in '' @ quoted ''t'')"
  by code_simp

lemma validate_empty_items:
  "validateAICompactDiagram (JObj [(''t'', JStr ''x''), (''i'', JArr [])])
     = Inl (''Diagram must have at least one item in '' @ quoted ''i'')"
  by code_simp

lemma validate_item_without_icon:
  "validateAICompactDiagram (JObj [(''t'', JStr ''x''), (''i'', JArr [JArr [JStr ''A'']])])
     = Inl ''Item at index 0 must be [name, icon, description?]''"
  by code_simp

text \<open>
  Claim C7. The validator reports one error, that of the first check that fails, in the
  order object, title, items (first offending item), views (first offending view); later
  violations are not inspected. In particular \<open>{}\<close> is rejected for its missing title,
  \<open>{"t":"x","i":[]}\<close> for its empty item list, and \<open>{"t":"x","i":[["A"]]}\<close> with the
  message for item 0, whose expected shape \<open>[name, icon, description?]\<close> names the icon
  that is missing.
\<close>

theorem validator_fails_fast:
  "validateAICompactDiagram (JObj [])
     = Inl (''Diagram must have a title string in '' @ quoted ''t'')
   \<and> validateAICompactDiagram (JObj [(''t'', JStr ''x''), (''i'', JArr [])])
     = Inl (''Diagram must have at least one item in '' @ quoted ''i'')
   \<and> validateAICompactDiagram (JObj [(''t'', JStr ''x''), (''i'', JArr [JArr [JStr ''A'']])])
     = Inl ''Item at index 0 must be [name, icon, description?]''
   \<and> (not_an_object d \<longrightarrow> validateAICompactDiagram d = Inl ''Diagram must be a JSON object'')
   \<and> (\<not> not_an_object d \<and> (\<not> truthy (get_prop d ''t'') \<or> \<not> is_string (get_prop d ''t'')) \<longrightarrow>
        validateAICompactDiagram d = Inl (''Diagram must have a title string in '' @ quoted ''t''))
   \<and> (\<not> not_an_object d \<and> truthy (get_prop d ''t'') \<and> is_string (get_prop d ''t'')
        \<and> (\<not> is_array (get_prop d ''i'') \<or> get_prop d ''i'' = JArr []) \<longrightarrow>
        validateAICompactDiagram d = Inl (''Diagram must have at least one item in '' @ quoted ''i''))
   \<and> (\<not> not_an_object d \<and> truthy (get_prop d ''t'') \<and> is_string (get_prop d ''t'')
        \<and> get_prop d ''i'' = JArr (xs @ y # ys) \<and> validate_items 0 xs = Inr ()
        \<and> validate_item (length xs) y = Inl m \<longrightarrow>
        validateAICompactDiagram d = Inl m)
   \<and> (\<not> not_an_object d \<and> truthy (get_prop d ''t'') \<and> is_string (get_prop d ''t'')
        \<and> get_prop d ''i'' = JArr (it # its) \<and> validate_items 0 (it # its) = Inr ()
        \<and> get_prop d ''v'' = JArr (vs @ w # ws) \<and> validate_views 0 vs = Inr ()
        \<and> validate_view (length vs) w = Inl m' \<longrightarrow>
        validateAICompactDiagram d = Inl m')"
  using validate_empty_object validate_empty_items validate_item_without_icon
    validate_not_object [of d] validate_title [of d] validate_no_items [of d]
    validate_item_violation [of d xs y ys m] validate_view_violation [of d it its vs w ws m']
  by blast


text \<open>
  The theorem at inputs with several violations each: only the first is reported.
\<close>

theorem validator_fails_fast_witness:
  "validateAICompactDiagram JNull = Inl ''Diagram must be a JSON object''
   \<and> validateAICompactDiagram (JObj [(''i'', JArr [])])
       = Inl (''Diagram must have a title string in '' @ quoted ''t'')
   \<and> validateAICompactDiagram (JObj [(''t'', JStr ''x''), (''i'', JNum (Fin 5))])
       = Inl (''Diagram must have at least one item in '' @ quoted ''i'')
   \<and> validateAICompactDiagram
        (JObj [(''t'', JStr ''x''),
               (''i'', JArr [JArr [JStr ''A'', JStr ''block''], JArr [JStr ''B''], JNum (Fin 5)])])
       = Inl ''Item at index 1 must be [name, icon, description?]''
   \<and> validateAICompactDiagram
        (JObj [(''t'', JStr ''x''),
               (''i'', JArr [JArr [JStr ''A'', JStr ''block'']]),
               (''v'', JArr [JArr [JArr [], JArr []],
                             JArr [JArr [JArr [JNum (Fin 0)]], JArr []],
                             JNum (Fin 7)])])
       = Inl ''Position at index 0 in view 1 must be [itemIndex, x, y]''"
proof -
  let ?d3 = "JObj [(''t'', JStr ''x''), (''i'', JNum (Fin 5))]"
  let ?d4 = "JObj [(''t'', JStr ''x''),
               (''i'', JArr [JArr [JStr ''A'', JStr ''block''], JArr [JStr ''B''], JNum (Fin 5)])]"
  let ?d5 = "JObj [(''t'', JStr ''x''),
               (''i'', JArr [JArr [JStr ''A'', JStr ''block'']]),
               (''v'', JArr [JArr [JArr [], JArr []],
                             JArr [JArr [JArr [JNum (Fin 0)]], JArr []],
                             JNum (Fin 7)])]"
  have h1: "not_an_object JNull"
    by (simp add: not_an_object_def)
  have h2: "\<not> not_an_object (JObj [(''i'', JArr [])])
            \<and> (\<not> truthy (get_prop (JObj [(''i'', JArr [])]) ''t'')
                \<or> \<not> is_string (get_prop (JObj [(''i'', JArr [])]) ''t''))"
    by (simp add: not_an_object_def get_prop_def truthy_def)
  have h3: "\<not> not_an_object ?d3 \<and> truthy (get_prop ?d3 ''t'') \<and> is_string (get_prop ?d3 ''t'')
            \<and> (\<not> is_array (get_prop ?d3 ''i'') \<or> get_prop ?d3 ''i'' = JArr [])"
    by (simp add: not_an_object_def get_prop_def truthy_def is_string_def is_array_def)
  have h4: "\<not> not_an_object ?d4 \<and> truthy (get_prop ?d4 ''t'') \<and> is_string (get_prop ?d4 ''t'')
            \<and> get_prop ?d4 ''i'' = JArr ([JArr [JStr ''A'', JStr ''block'']] @ JArr [JStr ''B''] # [JNum (Fin 5)])"
    by (simp add: not_an_object_def get_prop_def truthy_def is_string_def)
  have h4a: "validate_items 0 [JArr [JStr ''A'', JStr ''block'']] = Inr ()"
    by code_simp
  have h4b: "validate_item (length [JArr [JStr ''A'', JStr ''block'']]) (JArr [JStr ''B''])
               = Inl ''Item at index 1 must be [name, icon, description?]''"
    by code_simp
  have h5: "\<not> not_an_object ?d5 \<and> truthy (get_prop ?d5 ''t'') \<and> is_string (get_prop ?d5 ''t'')
            \<and> get_prop ?d5 ''i'' = JArr (JArr [JStr ''A'', JStr ''block''] # [])
            \<and> get_prop ?d5 ''v'' = JArr ([JArr [JArr [], JArr []]]
                  @ JArr [JArr [JArr [JNum (Fin 0)]], JArr []] # [JNum (Fin 7)])"
    by (simp add: not_an_object_def get_prop_def truthy_def is_string_def)
  have h5a: "validate_views 0 [JArr [JArr [], JArr []]] = Inr ()"
    by code_simp
  have h5b: "validate_view (length [JArr [JArr [], JArr []]]) (JArr [JArr [JArr [JNum (Fin 0)]], JArr []])
               = Inl ''Position at index 0 in view 1 must be [itemIndex, x, y]''"
    by code_simp
  from validator_fails_fast [where d = JNull] h1
  have c1: "validateAICompactDiagram JNull = Inl ''Diagram must be a JSON object''"
    by blast
  from validator_fails_fast [where d = "JObj [(''i'', JArr [])]"] h2
  have c2: "validateAICompactDiagram (JObj [(''i'', JArr [])])
       = Inl (''Diagram must have a title string in '' @ quoted ''t'')"
    by blast
  from validator_fails_fast [where d = ?d3] h3
  have c3: "validateAICompactDiagram ?d3
       = Inl (''Diagram must have at least one item in '' @ quoted ''i'')"
    by blast
  from validator_fails_fast [where d = ?d4 and xs = "[JArr [JStr ''A'', JStr ''block'']]"
        and y = "JArr [JStr ''B'']" and ys = "[JNum (Fin 5)]"
        and m = "''Item at index 1 must be [name, icon, description?]''"] h4 h4a h4b
  have c4: "validateAICompactDiagram ?d4
       = Inl ''Item at index 1 must be [name, icon, description?]''"
    by blast
  from validator_fails_fast [where d = ?d5 and it = "JArr [JStr ''A'', JStr ''block'']"
        and its = "[]" and vs = "[JArr [JArr [], JArr []]]"
        and w = "JArr [JArr [JArr [JNum (Fin 0)]], JArr []]" and ws = "[JNum (Fin 7)]"
        and m' = "''Position at index 0 in view 1 must be [itemIndex, x, y]''"] h5 h4a h5a h5b
  have c5: "validateAICompactDiagram ?d5
       = Inl ''Position at index 0 in view 1 must be [itemIndex, x, y]''"
    by blast
  from c1 c2 c3 c4 c5 show ?thesis by blast
qed

section \<open>View normalizer: the two loops\<close>

lemma error_is_TypeError: "((e :: error) = e') = True"
  by (cases e; cases e'; simp)

lemma range_check:
  "isFinite a \<Longrightarrow> (num_lt a (Fin 0) \<or> num_ge a (Fin (of_nat n))) = (\<not> in_range n a)"
  by (cases a) (auto simp: in_range_def isFinite_def)

lemma in_range_iff:
  "in_range n a = (isFinite a \<and> \<not> num_lt a (Fin 0) \<and> \<not> num_ge a (Fin (of_nat n)))"
  by (cases a) (auto simp: in_range_def isFinite_def)

lemma list_ex_upt_2: "list_ex Q [0..<2] = (Q 0 \<or> Q (Suc 0))"
  by (simp add: numeral_2_eq_2 upt_rec)

lemma list_ex_upt_3: "list_ex Q [0..<3] = (Q 0 \<or> Q (Suc 0) \<or> Q 2)"
  by (simp add: numeral_3_eq_3 upt_rec) (simp add: numeral_2_eq_2)

lemma in_range_finite: "in_range n a \<Longrightarrow> isFinite a"
  by (cases a) (auto simp: in_range_def isFinite_def)

lemma connection_step_entry:
  "connection_step P n conn cs = Inr cs' \<Longrightarrow>
     cs' = cs @ (case connection_entry P n conn of Some c \<Rightarrow> [c] | None \<Rightarrow> [])"
  unfolding connection_step_def connection_entry_def
  by (auto split: jsval.splits sum.splits if_splits simp: range_check in_range_finite)

lemma connection_step_throws:
  "(connection_step P n conn cs = Inl e) = entry_throws P 2 conn"
  unfolding connection_step_def entry_throws_def
  by (auto split: jsval.splits sum.splits if_splits simp: list_ex_upt_2 error_is_TypeError)

lemma connections_loop_append:
  "connections_loop P n (xs @ ys) cs =
     (case connections_loop P n xs cs of
        Inl e \<Rightarrow> Inl e
      | Inr cs' \<Rightarrow> connections_loop P n ys cs')"
  by (induction xs arbitrary: cs) (auto split: sum.splits)

lemma connections_loop_entries:
  "connections_loop P n raw cs = Inr cs' \<Longrightarrow>
     cs' = cs @ List.map_filter (connection_entry P n) raw"
proof (induction raw arbitrary: cs)
  case Nil
  then show ?case by simp
next
  case (Cons conn raw)
  from Cons.prems obtain cs1 where
    step: "connection_step P n conn cs = Inr cs1" and rest: "connections_loop P n raw cs1 = Inr cs'"
    by (auto split: sum.splits)
  from Cons.IH [OF rest] connection_step_entry [OF step]
  show ?case by (auto split: option.splits)
qed

lemma connections_loop_throws:
  "(connections_loop P n raw cs = Inl e) = (\<exists>conn \<in> set raw. entry_throws P 2 conn)"
proof (induction raw arbitrary: cs)
  case Nil
  then show ?case by simp
next
  case (Cons conn raw)
  show ?case
  proof (cases "connection_step P n conn cs")
    case (Inl e')
    then have "entry_throws P 2 conn" using connection_step_throws by blast
    then show ?thesis using Inl by (simp add: error_is_TypeError)
  next
    case (Inr cs1)
    then have "\<not> entry_throws P 2 conn"
      using connection_step_throws [of P n conn cs TypeError] by simp
    then show ?thesis using Inr Cons.IH [of cs1] by simp
  qed
qed


lemma position_step_entry:
  "position_step P n pos st = Inr st' \<Longrightarrow>
     st' = (case position_entry P n pos of
              Some p \<Rightarrow> if fst p \<in> snd st then st else (fst st @ [p], insert (fst p) (snd st))
            | None \<Rightarrow> st)"
  unfolding position_step_def position_entry_def
  by (auto split: jsval.splits sum.splits if_splits simp: in_range_iff)

lemma position_step_throws:
  "(position_step P n pos st = Inl e) = entry_throws P 3 pos"
  unfolding position_step_def entry_throws_def
  by (auto split: jsval.splits sum.splits if_splits simp: list_ex_upt_3 error_is_TypeError)

lemma positions_loop_append:
  "positions_loop P n (xs @ ys) st =
     (case positions_loop P n xs st of
        Inl e \<Rightarrow> Inl e
      | Inr st' \<Rightarrow> positions_loop P n ys st')"
  by (induction xs arbitrary: st) (auto split: sum.splits)

lemma positions_loop_throws:
  "(positions_loop P n raw st = Inl e) = (\<exists>pos \<in> set raw. entry_throws P 3 pos)"
proof (induction raw arbitrary: st)
  case Nil
  then show ?case by simp
next
  case (Cons pos raw)
  show ?case
  proof (cases "position_step P n pos st")
    case (Inl e')
    then have "entry_throws P 3 pos" using position_step_throws by blast
    then show ?thesis using Inl by (simp add: error_is_TypeError)
  next
    case (Inr st1)
    then have "\<not> entry_throws P 3 pos"
      using position_step_throws [of P n pos st TypeError] by simp
    then show ?thesis using Inr Cons.IH [of st1] by simp
  qed
qed

lemma earlier_entry_index:
  "list_ex (\<lambda>j. entry_index P n (raw ! j) = Some a) [0..<length raw]
     = (\<exists>x \<in> set raw. entry_index P n x = Some a)"
proof -
  have "(\<exists>j \<in> set [0..<length raw]. entry_index P n (raw ! j) = Some a)
        = (\<exists>j < length raw. entry_index P n (raw ! j) = Some a)"
    by auto
  also have "\<dots> = (\<exists>x \<in> set raw. entry_index P n x = Some a)"
    by (metis in_set_conv_nth)
  finally show ?thesis unfolding list_ex_iff .
qed

lemma first_occurrences_snoc:
  "first_occurrences P n (raw @ [x]) =
     first_occurrences P n raw
     @ (case position_entry P n x of
          None \<Rightarrow> []
        | Some p \<Rightarrow>
            if (\<exists>y \<in> set raw. entry_index P n y = Some (fst p)) then [] else [p])"
proof -
  let ?F = "\<lambda>xs k. case position_entry P n (xs ! k) of
                         None \<Rightarrow> []
                       | Some p \<Rightarrow>
                           if list_ex (\<lambda>j. entry_index P n (xs ! j) = Some (fst p)) [0..<k]
                           then [] else [p]"
  have same: "?F (raw @ [x]) k = ?F raw k" if "k < length raw" for k
    using that by (auto simp: list_ex_iff nth_append split: option.splits)
  have last: "?F (raw @ [x]) (length raw) =
     (case position_entry P n x of
          None \<Rightarrow> []
        | Some p \<Rightarrow>
            if (\<exists>y \<in> set raw. entry_index P n y = Some (fst p)) then [] else [p])"
  proof -
    have "list_ex (\<lambda>j. entry_index P n ((raw @ [x]) ! j) = Some a) [0..<length raw]
          = list_ex (\<lambda>j. entry_index P n (raw ! j) = Some a) [0..<length raw]" for a
      unfolding list_ex_iff by (auto simp: nth_append)
    then show ?thesis by (simp add: earlier_entry_index split: option.splits)
  qed
  have init: "map (?F (raw @ [x])) [0..<length raw] = map (?F raw) [0..<length raw]"
    using same by (intro map_cong) auto
  have "first_occurrences P n (raw @ [x])
          = concat (map (?F (raw @ [x])) [0..<length raw]) @ ?F (raw @ [x]) (length raw)"
    unfolding first_occurrences_def by simp
  also have "\<dots> = concat (map (?F raw) [0..<length raw]) @ ?F (raw @ [x]) (length raw)"
    by (simp only: init)
  also have "\<dots> = first_occurrences P n raw @ ?F (raw @ [x]) (length raw)"
    unfolding first_occurrences_def ..
  finally show ?thesis by (simp only: last)
qed

lemma positions_loop_first_occurrences:
  "positions_loop P n raw ([], {}) = Inr st \<Longrightarrow>
     st = (first_occurrences P n raw, {a. \<exists>x \<in> set raw. entry_index P n x = Some a})"
proof (induction raw arbitrary: st rule: rev_induct)
  case Nil
  then show ?case by (simp add: first_occurrences_def)
next
  case (snoc x raw)
  from snoc.prems obtain st1 where
    before: "positions_loop P n raw ([], {}) = Inr st1" and
    step: "position_step P n x st1 = Inr st"
    by (auto simp: positions_loop_append split: sum.splits)
  from snoc.IH [OF before] have st1:
    "st1 = (first_occurrences P n raw, {a. \<exists>x \<in> set raw. entry_index P n x = Some a})" .
  show ?case
  proof (cases "position_entry P n x")
    case None
    then have "entry_index P n x = None" by (simp add: entry_index_def)
    with None position_step_entry [OF step] st1 show ?thesis
      by (simp add: first_occurrences_snoc)
  next
    case (Some p)
    then have idx: "entry_index P n x = Some (fst p)" by (simp add: entry_index_def)
    show ?thesis
    proof (cases "\<exists>y \<in> set raw. entry_index P n y = Some (fst p)")
      case True
      with Some idx position_step_entry [OF step] st1 show ?thesis
        by (auto simp: first_occurrences_snoc)
    next
      case False
      with Some idx position_step_entry [OF step] st1 show ?thesis
        by (auto simp: first_occurrences_snoc)
    qed
  qed
qed

section \<open>View normalizer: what is kept\<close>

lemma Math_round_integer: "isFinite x \<Longrightarrow> is_integer (Math_round x)"
  by (cases x) (auto simp: is_integer_def isFinite_def)

lemma position_entry_rounded:
  "position_entry P n pos = Some p \<Longrightarrow> is_integer (fst (snd p)) \<and> is_integer (snd (snd p))"
  unfolding position_entry_def
  by (auto split: jsval.splits sum.splits if_splits simp: Math_round_integer)

lemma first_occurrences_entries:
  "p \<in> set (first_occurrences P n raw) \<Longrightarrow> \<exists>pos \<in> set raw. position_entry P n pos = Some p"
  unfolding first_occurrences_def
  by (auto split: option.splits if_splits)

lemma normalizeView_parts:
  "normalizeView P view n ensure = Inr (ps, cs) \<Longrightarrow>
     ps = first_occurrences P n (array_or_empty (at_index (array_or_empty view) 0))
          @ (if ensure
             then autoLayoutPositions n
                    {a. \<exists>x \<in> set (array_or_empty (at_index (array_or_empty view) 0)).
                          entry_index P n x = Some a}
             else [])
     \<and> cs = List.map_filter (connection_entry P n) (array_or_empty (at_index (array_or_empty view) 1))"
  unfolding normalizeView_def Let_def
  by (auto split: sum.splits prod.splits if_splits
      dest!: positions_loop_first_occurrences connections_loop_entries)

lemma normalizeView_returns:
  "(\<exists>w. normalizeView P view n ensure = Inr w) =
     ((\<forall>pos \<in> set (array_or_empty (at_index (array_or_empty view) 0)). \<not> entry_throws P 3 pos)
      \<and> (\<forall>conn \<in> set (array_or_empty (at_index (array_or_empty view) 1)). \<not> entry_throws P 2 conn))"
proof -
  let ?rp = "array_or_empty (at_index (array_or_empty view) 0)"
  let ?rc = "array_or_empty (at_index (array_or_empty view) 1)"
  have p: "(\<exists>st. positions_loop P n ?rp ([], {}) = Inr st) = (\<forall>pos \<in> set ?rp. \<not> entry_throws P 3 pos)"
    using positions_loop_throws [of P n ?rp "([], {})" TypeError]
    by (cases "positions_loop P n ?rp ([], {})") (auto simp: error_is_TypeError)
  have c: "(\<exists>cs. connections_loop P n ?rc [] = Inr cs) = (\<forall>conn \<in> set ?rc. \<not> entry_throws P 2 conn)"
    using connections_loop_throws [of P n ?rc "[]" TypeError]
    by (cases "connections_loop P n ?rc []") (auto simp: error_is_TypeError)
  show ?thesis
    unfolding p [symmetric] c [symmetric] normalizeView_def Let_def
    by (auto split: sum.splits prod.splits)
qed


lemma position_entry_in_range:
  "position_entry P n pos = Some p \<Longrightarrow> in_range n (fst p)"
  unfolding position_entry_def
  by (auto split: jsval.splits sum.splits if_splits)

lemma connection_entry_in_range:
  "connection_entry P n conn = Some c \<Longrightarrow> in_range n (fst c) \<and> in_range n (snd c)"
  unfolding connection_entry_def
  by (auto split: jsval.splits sum.splits if_splits)

lemma connection_entry_numbers:
  "connection_entry P n (JArr [JNum a, JNum b])
     = (if in_range n a \<and> in_range n b then Some (a, b) else None)"
  by (simp add: connection_entry_def at_index_def ToNumber_def)

text \<open>
  Claim C8, amended. The position pass keeps exactly the entries that are arrays of at
  least three elements (further elements are ignored) whose first three elements coerce
  to finite numbers, whose item index lies in \<open>[0, itemCount)\<close> and is not the index of an
  earlier such entry; the kept coordinates are rounded to integers. Nothing else is kept,
  and the pass returns whenever no inspected element fails to convert to a number.
\<close>

theorem position_pass_first_occurrence_wins:
  "(normalizeView P view n ensure = Inr (ps, cs) \<longrightarrow>
      ps = first_occurrences P n (array_or_empty (at_index (array_or_empty view) 0))
           @ (if ensure
              then autoLayoutPositions n
                     {a. \<exists>x \<in> set (array_or_empty (at_index (array_or_empty view) 0)).
                           entry_index P n x = Some a}
              else []))
   \<and> (\<forall>p \<in> set (first_occurrences P n raw).
         in_range n (fst p) \<and> is_integer (fst (snd p)) \<and> is_integer (snd (snd p)))
   \<and> ((\<forall>pos \<in> set (array_or_empty (at_index (array_or_empty view) 0)). \<not> entry_throws P 3 pos)
       \<and> (\<forall>conn \<in> set (array_or_empty (at_index (array_or_empty view) 1)). \<not> entry_throws P 2 conn)
       \<longrightarrow> (\<exists>w. normalizeView P view n ensure = Inr w))"
proof (intro conjI impI ballI)
  assume "normalizeView P view n ensure = Inr (ps, cs)"
  then show "ps = first_occurrences P n (array_or_empty (at_index (array_or_empty view) 0))
           @ (if ensure
              then autoLayoutPositions n
                     {a. \<exists>x \<in> set (array_or_empty (at_index (array_or_empty view) 0)).
                           entry_index P n x = Some a}
              else [])"
    by (simp add: normalizeView_parts)
next
  fix p assume "p \<in> set (first_occurrences P n raw)"
  then obtain pos where "position_entry P n pos = Some p"
    using first_occurrences_entries by blast
  then show "in_range n (fst p)" "is_integer (fst (snd p))" "is_integer (snd (snd p))"
    using position_entry_in_range position_entry_rounded by blast+
next
  assume "(\<forall>pos \<in> set (array_or_empty (at_index (array_or_empty view) 0)). \<not> entry_throws P 3 pos)
       \<and> (\<forall>conn \<in> set (array_or_empty (at_index (array_or_empty view) 1)). \<not> entry_throws P 2 conn)"
  then show "\<exists>w. normalizeView P view n ensure = Inr w"
    using normalizeView_returns [of P view n ensure] by blast
qed

text \<open>
  The theorem on a list with a fractional coordinate, a duplicate, a non-array, an index
  out of range and an entry of four elements, for two items.
\<close>

theorem position_pass_first_occurrence_wins_witness:
  "normalizeView example_platform
     (JArr [JArr [JArr [JNum (Fin 0), JNum (Fin (7 / 5)), JNum (Fin (5 / 2))],
                  JArr [JNum (Fin 0), JNum (Fin 9), JNum (Fin 9)],
                  JStr ''junk'',
                  JArr [JNum (Fin 5), JNum (Fin 0), JNum (Fin 0)],
                  JArr [JNum (Fin 1), JNum (Fin 0), JNum (Fin 0), JNum (Fin 7)]],
            JArr []]) 2 False
     = Inr ([(Fin 0, Fin 1, Fin 3), (Fin 1, Fin 0, Fin 0)], [])
   \<and> first_occurrences example_platform 2
        [JArr [JNum (Fin 0), JNum (Fin (7 / 5)), JNum (Fin (5 / 2))],
         JArr [JNum (Fin 0), JNum (Fin 9), JNum (Fin 9)],
         JStr ''junk'',
         JArr [JNum (Fin 5), JNum (Fin 0), JNum (Fin 0)],
         JArr [JNum (Fin 1), JNum (Fin 0), JNum (Fin 0), JNum (Fin 7)]]
     = [(Fin 0, Fin 1, Fin 3), (Fin 1, Fin 0, Fin 0)]
   \<and> is_integer (Fin 3)"
proof -
  let ?raw = "[JArr [JNum (Fin 0), JNum (Fin (7 / 5)), JNum (Fin (5 / 2))],
         JArr [JNum (Fin 0), JNum (Fin 9), JNum (Fin 9)],
         JStr ''junk'',
         JArr [JNum (Fin 5), JNum (Fin 0), JNum (Fin 0)],
         JArr [JNum (Fin 1), JNum (Fin 0), JNum (Fin 0), JNum (Fin 7)]]"
  let ?view = "JArr [JArr ?raw, JArr []]"
  have run: "normalizeView example_platform ?view 2 False
               = Inr ([(Fin 0, Fin 1, Fin 3), (Fin 1, Fin 0, Fin 0)], [])"
    by code_simp
  have raw: "array_or_empty (at_index (array_or_empty ?view) 0) = ?raw"
    by (simp add: array_or_empty_def at_index_def)
  note inst = position_pass_first_occurrence_wins
    [of example_platform ?view 2 False "[(Fin 0, Fin 1, Fin 3), (Fin 1, Fin 0, Fin 0)]" "[]" ?raw]
  from inst run raw
  have kept: "first_occurrences example_platform 2 ?raw = [(Fin 0, Fin 1, Fin 3), (Fin 1, Fin 0, Fin 0)]"
    by simp
  from inst kept have "is_integer (Fin 3)"
    by simp
  with run kept show ?thesis by blast
qed

text \<open>
  Claim C8, as stated, fails twice: an entry of four elements is kept, and an entry whose
  item index is an object with an own \<open>toString\<close> property makes the pass throw.
\<close>

theorem position_pass_counterexample:
  "normalizeView example_platform
     (JArr [JArr [JArr [JNum (Fin 0), JNum (Fin 1), JNum (Fin 2), JNum (Fin 3)]], JArr []]) 1 False
     = Inr ([(Fin 0, Fin 1, Fin 2)], [])
   \<and> normalizeView example_platform
     (JArr [JArr [JArr [JObj [(''toString'', JNum (Fin 1))], JNum (Fin 0), JNum (Fin 0)]],
            JArr []]) 1 False
     = Inl TypeError"
  by code_simp

text \<open>
  Claim C9, amended. The connections kept are, in order and without deduplication, those
  of the raw entries that are arrays of at least two elements whose first two elements
  coerce to finite numbers inside \<open>[0, itemCount)\<close>; an entry that is a pair of such numbers
  passes through unchanged; every other entry is dropped. The pass returns whenever no
  inspected element fails to convert to a number.
\<close>

theorem connections_pass_through:
  "(normalizeView P view n ensure = Inr (ps, cs) \<longrightarrow>
      cs = List.map_filter (connection_entry P n)
             (array_or_empty (at_index (array_or_empty view) 1)))
   \<and> (in_range n a \<and> in_range n b \<longrightarrow>
        map_option connection_js (connection_entry P n (JArr [JNum a, JNum b]))
          = Some (JArr [JNum a, JNum b]))
   \<and> (\<not> (in_range n a \<and> in_range n b) \<longrightarrow> connection_entry P n (JArr [JNum a, JNum b]) = None)
   \<and> (connection_entry P n conn = Some c \<longrightarrow> in_range n (fst c) \<and> in_range n (snd c))
   \<and> ((\<forall>pos \<in> set (array_or_empty (at_index (array_or_empty view) 0)). \<not> entry_throws P 3 pos)
       \<and> (\<forall>conn \<in> set (array_or_empty (at_index (array_or_empty view) 1)). \<not> entry_throws P 2 conn)
       \<longrightarrow> (\<exists>w. normalizeView P view n ensure = Inr w))"
  using normalizeView_parts [of P view n ensure ps cs] connection_entry_numbers [of P n a b]
    connection_entry_in_range [of P n conn c] normalizeView_returns [of P view n ensure]
  by (auto simp: connection_js_def)

text \<open>
  The theorem on three items: a self-loop and a repeated connection are kept, \<open>[0, 7]\<close>
  and a non-array are dropped.
\<close>

theorem connections_pass_through_witness:
  "normalizeView example_platform
     (JArr [JArr [],
            JArr [JArr [JNum (Fin 0), JNum (Fin 1)],
                  JArr [JNum (Fin 0), JNum (Fin 7)],
                  JArr [JNum (Fin 2), JNum (Fin 2)],
                  JNull,
                  JArr [JNum (Fin 0), JNum (Fin 1)]]]) 3 False
     = Inr ([], [(Fin 0, Fin 1), (Fin 2, Fin 2), (Fin 0, Fin 1)])
   \<and> List.map_filter (connection_entry example_platform 3)
        [JArr [JNum (Fin 0), JNum (Fin 1)],
         JArr [JNum (Fin 0), JNum (Fin 7)],
         JArr [JNum (Fin 2), JNum (Fin 2)],
         JNull,
         JArr [JNum (Fin 0), JNum (Fin 1)]]
     = [(Fin 0, Fin 1), (Fin 2, Fin 2), (Fin 0, Fin 1)]
   \<and> in_range 3 (Fin 0) \<and> in_range 3 (Fin 1) \<and> \<not> in_range 3 (Fin 7)
   \<and> connection_entry example_platform 3 (JArr [JNum (Fin 0), JNum (Fin 7)]) = None
   \<and> map_option connection_js (connection_entry example_platform 3 (JArr [JNum (Fin 0), JNum (Fin 1)]))
       = Some (JArr [JNum (Fin 0), JNum (Fin 1)])"
proof -
  let ?raw = "[JArr [JNum (Fin 0), JNum (Fin 1)],
         JArr [JNum (Fin 0), JNum (Fin 7)],
         JArr [JNum (Fin 2), JNum (Fin 2)],
         JNull,
         JArr [JNum (Fin 0), JNum (Fin 1)]]"
  let ?view = "JArr [JArr [], JArr ?raw]"
  have run: "normalizeView example_platform ?view 3 False
               = Inr ([], [(Fin 0, Fin 1), (Fin 2, Fin 2), (Fin 0, Fin 1)])"
    by code_simp
  have raw: "array_or_empty (at_index (array_or_empty ?view) 1) = ?raw"
    by (simp add: array_or_empty_def at_index_def)
  have r0: "in_range 3 (Fin 0)" and r1: "in_range 3 (Fin 1)" and r7: "\<not> in_range 3 (Fin 7)"
    by (simp_all add: in_range_def)
  from connections_pass_through
    [of example_platform ?view 3 False "[]" "[(Fin 0, Fin 1), (Fin 2, Fin 2), (Fin 0, Fin 1)]"
        "Fin 0" "Fin 1"] run raw r0 r1
  have kept: "List.map_filter (connection_entry example_platform 3) ?raw
                = [(Fin 0, Fin 1), (Fin 2, Fin 2), (Fin 0, Fin 1)]"
    and same: "map_option connection_js (connection_entry example_platform 3 (JArr [JNum (Fin 0), JNum (Fin 1)]))
       = Some (JArr [JNum (Fin 0), JNum (Fin 1)])"
    by simp_all
  from connections_pass_through [of example_platform ?view 3 False _ _ "Fin 0" "Fin 7"] r7
  have dropped: "connection_entry example_platform 3 (JArr [JNum (Fin 0), JNum (Fin 7)]) = None"
    by blast
  from run kept r0 r1 r7 dropped same show ?thesis by blast
qed

text \<open>
  Claim C9, as stated, fails: a connection entry whose first index is an object with an
  own \<open>toString\<close> property is not dropped silently, the pass throws.
\<close>

theorem connections_counterexample:
  "normalizeView example_platform
     (JArr [JArr [], JArr [JArr [JObj [(''toString'', JNum (Fin 1))], JNum (Fin 0)]]]) 3 False
     = Inl TypeError"
  by code_simp

section \<open>Coverage and index safety\<close>

lemma auto_loop_indices:
  "map fst (auto_loop columns used idxs placed)
     = map (\<lambda>i. Fin (of_nat i)) (filter (\<lambda>i. Fin (of_nat i) \<notin> used) idxs)"
  by (induction idxs arbitrary: placed) auto

lemma autoLayoutPositions_indices:
  "map fst (autoLayoutPositions n used)
     = map (\<lambda>i. Fin (of_nat i)) (filter (\<lambda>i. Fin (of_nat i) \<notin> used) [0..<n])"
  by (simp add: autoLayoutPositions_def auto_loop_indices)

lemma inj_Fin_of_nat: "inj (\<lambda>i::nat. Fin (of_nat i))"
  by (auto simp: inj_on_def)

lemma in_range_of_nat: "i < n \<Longrightarrow> in_range n (Fin (of_nat i))"
  by (simp add: in_range_def)

lemma integer_in_range:
  assumes "in_range n a" and "is_integer a"
  shows "\<exists>i<n. a = Fin (of_nat i)"
proof -
  from assms obtain q where a: "a = Fin q" and q: "0 \<le> q" "q < of_nat n" and int: "q = of_int \<lfloor>q\<rfloor>"
    by (cases a) (auto simp: in_range_def is_integer_def)
  from q(1) have nonneg: "0 \<le> \<lfloor>q\<rfloor>" by simp
  then have "q = of_nat (nat \<lfloor>q\<rfloor>)" using int by (metis of_int_of_nat_eq int_nat_eq)
  moreover from this q(2) have "nat \<lfloor>q\<rfloor> < n" by (metis of_nat_less_iff)
  ultimately show ?thesis using a by blast
qed

lemma is_integer_of_nat: "is_integer (Fin (of_nat i))"
  by (simp add: is_integer_def)

lemma position_step_invariant:
  assumes "position_step P n pos st = Inr st'"
    and "distinct (map fst (fst st))" and "fst ` set (fst st) = snd st"
    and "\<forall>p \<in> set (fst st). in_range n (fst p)"
  shows "distinct (map fst (fst st')) \<and> fst ` set (fst st') = snd st'
         \<and> (\<forall>p \<in> set (fst st'). in_range n (fst p))"
proof (cases "position_entry P n pos")
  case None
  with position_step_entry [OF assms(1)] assms(2-) show ?thesis by simp
next
  case (Some p)
  from position_entry_in_range [OF Some] have "in_range n (fst p)" .
  with Some position_step_entry [OF assms(1)] assms(2-) show ?thesis
    by (auto split: if_splits)
qed

lemma positions_loop_invariant:
  "positions_loop P n raw st = Inr st' \<Longrightarrow>
   distinct (map fst (fst st)) \<Longrightarrow> fst ` set (fst st) = snd st \<Longrightarrow>
   \<forall>p \<in> set (fst st). in_range n (fst p) \<Longrightarrow>
     distinct (map fst (fst st')) \<and> fst ` set (fst st') = snd st'
     \<and> (\<forall>p \<in> set (fst st'). in_range n (fst p))"
proof (induction raw arbitrary: st)
  case Nil
  then show ?case by simp
next
  case (Cons pos raw)
  from Cons.prems(1) obtain st1 where
    step: "position_step P n pos st = Inr st1" and rest: "positions_loop P n raw st1 = Inr st'"
    by (auto split: sum.splits)
  from position_step_invariant [OF step Cons.prems(2-4)] Cons.IH [OF rest]
  show ?case by blast
qed

lemma first_occurrences_invariant:
  assumes "positions_loop P n raw ([], {}) = Inr st"
  shows "distinct (map fst (first_occurrences P n raw))"
    and "fst ` set (first_occurrences P n raw) = {a. \<exists>x \<in> set raw. entry_index P n x = Some a}"
    and "\<forall>p \<in> set (first_occurrences P n raw). in_range n (fst p)"
  using positions_loop_invariant [OF assms] positions_loop_first_occurrences [OF assms]
  by auto


lemma set_map_filter: "set (List.map_filter f xs) = {y. \<exists>x \<in> set xs. f x = Some y}"
  by (induction xs) (auto split: option.splits)

lemma normalizeView_loops:
  assumes "normalizeView P view n ensure = Inr (ps, cs)"
  obtains st where
    "positions_loop P n (array_or_empty (at_index (array_or_empty view) 0)) ([], {}) = Inr st"
  using assms unfolding normalizeView_def Let_def
  by (auto split: sum.splits prod.splits)

lemma autoLayoutPositions_in_range:
  "p \<in> set (autoLayoutPositions n used) \<Longrightarrow> in_range n (fst p)"
proof -
  assume "p \<in> set (autoLayoutPositions n used)"
  then have "fst p \<in> set (map fst (autoLayoutPositions n used))" by simp
  then show ?thesis
    unfolding autoLayoutPositions_indices by (auto simp: in_range_of_nat)
qed

lemma normalizeView_in_range:
  assumes "normalizeView P view n ensure = Inr (ps, cs)"
  shows "(\<forall>p \<in> set ps. in_range n (fst p))
         \<and> (\<forall>c \<in> set cs. in_range n (fst c) \<and> in_range n (snd c))"
proof -
  let ?rp = "array_or_empty (at_index (array_or_empty view) 0)"
  from assms obtain st where loop: "positions_loop P n ?rp ([], {}) = Inr st"
    by (rule normalizeView_loops)
  from normalizeView_parts [OF assms] first_occurrences_invariant(3) [OF loop]
  have "\<forall>p \<in> set ps. in_range n (fst p)"
    by (auto dest: autoLayoutPositions_in_range split: if_splits)
  moreover from normalizeView_parts [OF assms]
  have "\<forall>c \<in> set cs. in_range n (fst c) \<and> in_range n (snd c)"
    by (auto simp: set_map_filter dest: connection_entry_in_range)
  ultimately show ?thesis by blast
qed

lemma normalizeView_full_coverage:
  assumes "normalizeView P view n True = Inr (ps, cs)"
  shows "distinct (map fst ps)"
    and "{a \<in> fst ` set ps. is_integer a} = (\<lambda>i. Fin (of_nat i)) ` {..<n}"
proof -
  let ?rp = "array_or_empty (at_index (array_or_empty view) 0)"
  let ?used = "{a. \<exists>x \<in> set ?rp. entry_index P n x = Some a}"
  let ?ex = "first_occurrences P n ?rp"
  let ?au = "autoLayoutPositions n ?used"
  from assms obtain st where loop: "positions_loop P n ?rp ([], {}) = Inr st"
    by (rule normalizeView_loops)
  note inv = first_occurrences_invariant [OF loop]
  from normalizeView_parts [OF assms] have ps: "ps = ?ex @ ?au" by simp
  have au: "map fst ?au = map (\<lambda>i. Fin (of_nat i)) (filter (\<lambda>i. Fin (of_nat i) \<notin> ?used) [0..<n])"
    by (rule autoLayoutPositions_indices)
  have "distinct (map fst ?au)"
    unfolding au by (simp add: distinct_map inj_on_def)
  moreover have "set (map fst ?ex) \<inter> set (map fst ?au) = {}"
    unfolding au using inv(2) by auto
  ultimately show "distinct (map fst ps)"
    using inv(1) ps by simp
  have range: "\<forall>p \<in> set ps. in_range n (fst p)"
    using normalizeView_in_range [OF assms] by blast
  show "{a \<in> fst ` set ps. is_integer a} = (\<lambda>i. Fin (of_nat i)) ` {..<n}"
  proof (intro equalityI subsetI)
    fix a assume "a \<in> {a \<in> fst ` set ps. is_integer a}"
    with range have "in_range n a" "is_integer a" by auto
    then show "a \<in> (\<lambda>i. Fin (of_nat i)) ` {..<n}"
      using integer_in_range by blast
  next
    fix a assume "a \<in> (\<lambda>i. Fin (of_nat i)) ` {..<n}"
    then obtain i where i: "i < n" "a = Fin (of_nat i)" by auto
    have "a \<in> fst ` set ps"
    proof (cases "a \<in> ?used")
      case True
      with inv(2) ps show ?thesis by auto
    next
      case False
      with i have "a \<in> set (map fst ?au)" unfolding au by auto
      with ps show ?thesis by auto
    qed
    with i show "a \<in> {a \<in> fst ` set ps. is_integer a}"
      by (simp add: is_integer_of_nat)
  qed
qed

lemma normalize_views_nth:
  "normalize_views P n k views = Inr ws \<Longrightarrow>
     length ws = length views
     \<and> (\<forall>j<length views. normalizeView P (views ! j) n (k + j = 0) = Inr (ws ! j))"
proof (induction views arbitrary: k ws)
  case Nil
  then show ?case by simp
next
  case (Cons view views)
  from Cons.prems obtain w ws' where
    hd: "normalizeView P view n (k = 0) = Inr w" and
    tl: "normalize_views P n (Suc k) views = Inr ws'" and ws: "ws = w # ws'"
    by (auto split: sum.splits)
  from Cons.IH [OF tl] hd ws show ?case
    by (auto simp: nth_Cons split: nat.splits)
qed

lemma normalizeCompactDiagram_parts:
  assumes "normalizeCompactDiagram P raw ex = Inr d"
  obtains ids ts where
    "buildIconIdSet P ex = Inr ids"
    "toSafeString P (get_prop raw ''t'') = Inr ts"
    "diagram_t d = (if trim ts = [] then ''Untitled'' else trim ts)"
    "normalize_items P ids 0 (array_or_empty (get_prop raw ''i'')) = Inr (diagram_i d)"
    "normalize_views P (length (diagram_i d)) 0
       (if array_or_empty (get_prop raw ''v'') \<noteq> [] then array_or_empty (get_prop raw ''v'')
        else [JArr []]) = Inr (diagram_v d)"
    "diagram_meta d = DEFAULT_COMPACT_META"
  using assms unfolding normalizeCompactDiagram_def Let_def
  by (auto split: sum.splits)

lemma normalized_views:
  assumes "normalizeCompactDiagram P raw ex = Inr d"
  shows "diagram_v d \<noteq> []"
    and "\<And>j. j < length (diagram_v d) \<Longrightarrow>
           \<exists>view. normalizeView P view (length (diagram_i d)) (j = 0) = Inr (diagram_v d ! j)"
proof -
  let ?views = "if array_or_empty (get_prop raw ''v'') \<noteq> [] then array_or_empty (get_prop raw ''v'')
        else [JArr []]"
  from assms have nv: "normalize_views P (length (diagram_i d)) 0 ?views = Inr (diagram_v d)"
    by (rule normalizeCompactDiagram_parts)
  have "length ?views \<noteq> 0" by simp
  with normalize_views_nth [OF nv] have "length (diagram_v d) \<noteq> 0" by simp
  then show "diagram_v d \<noteq> []" by simp
  fix j assume "j < length (diagram_v d)"
  with normalize_views_nth [OF nv]
  show "\<exists>view. normalizeView P view (length (diagram_i d)) (j = 0) = Inr (diagram_v d ! j)"
    by auto
qed


lemma integer_entries_count:
  assumes "distinct (map fst ps)"
    and "{a \<in> fst ` set ps. is_integer a} = (\<lambda>i. Fin (of_nat i)) ` {..<n}"
  shows "length (filter (\<lambda>p. is_integer (fst p)) ps) = n"
proof -
  have "map fst (filter (\<lambda>p. is_integer (fst p)) ps) = filter is_integer (map fst ps)"
    by (simp add: filter_map comp_def)
  then have "length (filter (\<lambda>p. is_integer (fst p)) ps) = length (filter is_integer (map fst ps))"
    by (metis length_map)
  also have "\<dots> = card (set (filter is_integer (map fst ps)))"
    using assms(1) distinct_card [of "filter is_integer (map fst ps)"] distinct_filter
    by metis
  also have "set (filter is_integer (map fst ps)) = (\<lambda>i. Fin (of_nat i)) ` {..<n}"
    using assms(2) by auto
  also have "card ((\<lambda>i::nat. Fin (of_nat i)) ` {..<n}) = n"
    by (simp add: card_image inj_on_def)
  finally show ?thesis .
qed

text \<open>
  Claim C2. In every view of a normalized diagram, every position's item index and both
  indices of every connection are finite numbers inside \<open>[0, itemCount)\<close>, where
  \<open>itemCount\<close> is the number of normalized items.
\<close>

theorem index_safety:
  "normalizeCompactDiagram P raw ex = Inr d \<Longrightarrow>
     \<forall>w \<in> set (diagram_v d).
       (\<forall>p \<in> set (fst w). in_range (length (diagram_i d)) (fst p))
       \<and> (\<forall>c \<in> set (snd w). in_range (length (diagram_i d)) (fst c)
                              \<and> in_range (length (diagram_i d)) (snd c))"
proof
  fix w
  assume run: "normalizeCompactDiagram P raw ex = Inr d" and "w \<in> set (diagram_v d)"
  then obtain j where j: "j < length (diagram_v d)" "w = diagram_v d ! j"
    by (auto simp: in_set_conv_nth)
  from normalized_views(2) [OF run j(1)] j(2) obtain view where
    "normalizeView P view (length (diagram_i d)) (j = 0) = Inr (fst w, snd w)"
    by auto
  then show "(\<forall>p \<in> set (fst w). in_range (length (diagram_i d)) (fst p))
       \<and> (\<forall>c \<in> set (snd w). in_range (length (diagram_i d)) (fst c)
                              \<and> in_range (length (diagram_i d)) (snd c))"
    by (rule normalizeView_in_range)
qed

text \<open>
  The theorem on two items and two views holding out-of-range positions and connections.
\<close>

theorem index_safety_witness:
  "normalizeCompactDiagram example_platform
     (JObj [(''t'', JStr ''Demo''),
            (''i'', JArr [JArr [JStr ''A'', JStr ''block''], JArr [JStr ''B'', JStr ''cache'']]),
            (''v'', JArr [JArr [JArr [JArr [JNum (Fin 0), JNum (Fin 0), JNum (Fin 0)],
                                      JArr [JNum (Fin 5), JNum (Fin 1), JNum (Fin 1)]],
                                JArr [JArr [JNum (Fin 0), JNum (Fin 1)],
                                      JArr [JNum (Fin 0), JNum (Fin 7)]]],
                          JArr [JArr [JArr [JNum (Fin 1), JNum (Fin 2), JNum (Fin 2)],
                                      JArr [JNum (Fin (- 1)), JNum (Fin 0), JNum (Fin 0)]],
                                JArr [JArr [JNum (Fin 1), JNum (Fin 1)],
                                      JArr [JNum (Fin 2), JNum (Fin 0)]]]])])
     (JArr [])
   = Inr \<lparr>diagram_t = ''Demo'',
          diagram_i = [(''A'', ''block'', []), (''B'', ''cache'', [])],
          diagram_v = [([(Fin 0, Fin 0, Fin 0), (Fin 1, Fin 0, Fin 0)], [(Fin 0, Fin 1)]),
                       ([(Fin 1, Fin 2, Fin 2)], [(Fin 1, Fin 1)])],
          diagram_meta = (''compact'', ''1.0'')\<rparr>
   \<and> in_range 2 (Fin 0) \<and> in_range 2 (Fin 1)"
proof -
  let ?raw = "JObj [(''t'', JStr ''Demo''),
            (''i'', JArr [JArr [JStr ''A'', JStr ''block''], JArr [JStr ''B'', JStr ''cache'']]),
            (''v'', JArr [JArr [JArr [JArr [JNum (Fin 0), JNum (Fin 0), JNum (Fin 0)],
                                      JArr [JNum (Fin 5), JNum (Fin 1), JNum (Fin 1)]],
                                JArr [JArr [JNum (Fin 0), JNum (Fin 1)],
                                      JArr [JNum (Fin 0), JNum (Fin 7)]]],
                          JArr [JArr [JArr [JNum (Fin 1), JNum (Fin 2), JNum (Fin 2)],
                                      JArr [JNum (Fin (- 1)), JNum (Fin 0), JNum (Fin 0)]],
                                JArr [JArr [JNum (Fin 1), JNum (Fin 1)],
                                      JArr [JNum (Fin 2), JNum (Fin 0)]]]])]"
  let ?d = "\<lparr>diagram_t = ''Demo'',
          diagram_i = [(''A'', ''block'', []), (''B'', ''cache'', [])],
          diagram_v = [([(Fin 0, Fin 0, Fin 0), (Fin 1, Fin 0, Fin 0)], [(Fin 0, Fin 1)]),
                       ([(Fin 1, Fin 2, Fin 2)], [(Fin 1, Fin 1)])],
          diagram_meta = (''compact'', ''1.0'')\<rparr>"
  have run: "normalizeCompactDiagram example_platform ?raw (JArr []) = Inr ?d"
    by code_simp
  from index_safety [OF run] have "in_range 2 (Fin 0) \<and> in_range 2 (Fin 1)"
    by (simp add: numeral_2_eq_2)
  with run show ?thesis by blast
qed

text \<open>
  Claim C1, amended. In the first view of a normalized diagram with \<open>N\<close> items the item
  indices of the positions are pairwise distinct, and the integer indices among them are
  exactly \<open>0..N-1\<close>, each once: the positions with an integer index are exactly \<open>N\<close>, and
  the whole list has \<open>N\<close> entries when every index in it is an integer.
\<close>

theorem first_view_full_coverage:
  "normalizeCompactDiagram P raw ex = Inr d \<Longrightarrow>
     diagram_v d \<noteq> []
     \<and> distinct (map fst (fst (hd (diagram_v d))))
     \<and> {a \<in> fst ` set (fst (hd (diagram_v d))). is_integer a}
         = (\<lambda>i. Fin (of_nat i)) ` {..<length (diagram_i d)}
     \<and> length (filter (\<lambda>p. is_integer (fst p)) (fst (hd (diagram_v d)))) = length (diagram_i d)
     \<and> ((\<forall>p \<in> set (fst (hd (diagram_v d))). is_integer (fst p))
          \<longrightarrow> length (fst (hd (diagram_v d))) = length (diagram_i d))"
proof -
  assume run: "normalizeCompactDiagram P raw ex = Inr d"
  let ?ps = "fst (hd (diagram_v d))"
  let ?n = "length (diagram_i d)"
  from normalized_views(1) [OF run] have ne: "diagram_v d \<noteq> []" .
  then have "0 < length (diagram_v d)" by simp
  from normalized_views(2) [OF run this] ne obtain view where
    "normalizeView P view ?n True = Inr (?ps, snd (hd (diagram_v d)))"
    by (auto simp: hd_conv_nth)
  note cover = normalizeView_full_coverage [OF this]
  note count = integer_entries_count [OF cover]
  have "length ?ps = ?n" if "\<forall>p \<in> set ?ps. is_integer (fst p)"
  proof -
    from that have "filter (\<lambda>p. is_integer (fst p)) ?ps = ?ps" by simp
    with count show ?thesis by simp
  qed
  with ne cover count show ?thesis by blast
qed

text \<open>
  The theorem on three items with one explicit position, a duplicate of it and an index
  out of range.
\<close>

theorem first_view_full_coverage_witness:
  "normalizeCompactDiagram example_platform
     (JObj [(''i'', JArr [JArr [JStr ''A''], JArr [JStr ''B''], JArr [JStr ''C'']]),
            (''v'', JArr [JArr [JArr [JArr [JNum (Fin 1), JNum (Fin 9), JNum (Fin 9)],
                                      JArr [JNum (Fin 1), JNum (Fin 0), JNum (Fin 0)],
                                      JArr [JNum (Fin 3), JNum (Fin 0), JNum (Fin 0)]],
                                JArr []]])])
     (JArr [])
   = Inr \<lparr>diagram_t = ''Untitled'',
          diagram_i = [(''A'', ''block'', []), (''B'', ''block'', []), (''C'', ''block'', [])],
          diagram_v = [([(Fin 1, Fin 9, Fin 9), (Fin 0, Fin 0, Fin 0), (Fin 2, Fin 4, Fin 0)], [])],
          diagram_meta = (''compact'', ''1.0'')\<rparr>
   \<and> distinct [Fin 1, Fin 0, Fin 2]
   \<and> is_integer (Fin 1) \<and> is_integer (Fin 0) \<and> is_integer (Fin 2)
   \<and> length [(Fin 1, Fin 9, Fin 9), (Fin 0, Fin 0, Fin 0), (Fin 2, Fin 4, Fin 0)] = (3 :: nat)"
proof -
  let ?raw = "JObj [(''i'', JArr [JArr [JStr ''A''], JArr [JStr ''B''], JArr [JStr ''C'']]),
            (''v'', JArr [JArr [JArr [JArr [JNum (Fin 1), JNum (Fin 9), JNum (Fin 9)],
                                      JArr [JNum (Fin 1), JNum (Fin 0), JNum (Fin 0)],
                                      JArr [JNum (Fin 3), JNum (Fin 0), JNum (Fin 0)]],
                                JArr []]])]"
  let ?d = "\<lparr>diagram_t = ''Untitled'',
          diagram_i = [(''A'', ''block'', []), (''B'', ''block'', []), (''C'', ''block'', [])],
          diagram_v = [([(Fin 1, Fin 9, Fin 9), (Fin 0, Fin 0, Fin 0), (Fin 2, Fin 4, Fin 0)], [])],
          diagram_meta = (''compact'', ''1.0'')\<rparr>"
  have run: "normalizeCompactDiagram example_platform ?raw (JArr []) = Inr ?d"
    by code_simp
  have ints: "is_integer (Fin 1) \<and> is_integer (Fin 0) \<and> is_integer (Fin 2)"
    by (simp add: is_integer_def)
  from first_view_full_coverage [OF run] ints
  have "distinct [Fin 1, Fin 0, Fin 2 :: jsnum]
        \<and> length [(Fin 1, Fin 9, Fin 9), (Fin 0, Fin 0, Fin 0), (Fin 2, Fin 4, Fin 0) :: position] = (3 :: nat)"
    by simp
  with run ints show ?thesis by blast
qed

text \<open>
  Claim C1, as stated, fails: a raw position whose item index is the fraction \<open>1/2\<close> is
  retained, so the first view of a one-item diagram has two positions, and the index
  \<open>1/2\<close> is not among \<open>0..N-1\<close>.
\<close>

theorem first_view_counterexample:
  "normalizeCompactDiagram example_platform
     (JObj [(''i'', JArr [JArr [JStr ''A'', JStr ''block'']]),
            (''v'', JArr [JArr [JArr [JArr [JNum (Fin (1 / 2)), JNum (Fin 0), JNum (Fin 0)]],
                                JArr []]])])
     (JArr [])
   = Inr \<lparr>diagram_t = ''Untitled'',
          diagram_i = [(''A'', ''block'', [])],
          diagram_v = [([(Fin (1 / 2), Fin 0, Fin 0), (Fin 0, Fin 0, Fin 0)], [])],
          diagram_meta = (''compact'', ''1.0'')\<rparr>
   \<and> length [(Fin (1 / 2), Fin 0, Fin 0), (Fin 0, Fin 0, Fin 0) :: position]
       \<noteq> length [(''A'', ''block'', []) :: item]"
proof -
  have "normalizeCompactDiagram example_platform
     (JObj [(''i'', JArr [JArr [JStr ''A'', JStr ''block'']]),
            (''v'', JArr [JArr [JArr [JArr [JNum (Fin (1 / 2)), JNum (Fin 0), JNum (Fin 0)]],
                                JArr []]])])
     (JArr [])
   = Inr \<lparr>diagram_t = ''Untitled'',
          diagram_i = [(''A'', ''block'', [])],
          diagram_v = [([(Fin (1 / 2), Fin 0, Fin 0), (Fin 0, Fin 0, Fin 0)], [])],
          diagram_meta = (''compact'', ''1.0'')\<rparr>"
    by code_simp
  then show ?thesis by simp
qed

section \<open>Items, title and totality\<close>

lemma plain_ToString:
  "plain v \<Longrightarrow> \<exists>s. ToString P v = Inr s"
  "(\<forall>x \<in> set xs. plain x) \<Longrightarrow> \<exists>s. join_elements P xs = Inr s"
proof (induction P v and P xs rule: ToString_join_elements.induct)
  case (9 P x xs)
  from "9.prems" have px: "plain x" and pxs: "\<forall>y \<in> set xs. plain y" by simp_all
  have "\<exists>s. (if x = JUndefined \<or> x = JNull then Inr [] else ToString P x) = Inr s"
    using "9.IH"(1) px by auto
  then obtain s where s: "(if x = JUndefined \<or> x = JNull then Inr [] else ToString P x) = Inr s" ..
  show ?case
  proof (cases "xs = []")
    case True
    with s show ?thesis by simp
  next
    case False
    from "9.IH"(2) [OF s False pxs] obtain r where "join_elements P xs = Inr r" ..
    with s False show ?thesis by simp
  qed
qed auto

lemma plain_toSafeString: "plain v \<Longrightarrow> \<exists>s. toSafeString P v = Inr s"
  using plain_ToString(1) [of v P] by (cases v) (auto simp: toSafeString_def)

lemma plain_ToNumber: "plain v \<Longrightarrow> \<exists>a. ToNumber P v = Inr a"
  using plain_ToString(1) [of v P] by (cases v) (auto simp: ToNumber_def)

lemma plain_get_prop: "plain v \<Longrightarrow> plain (get_prop v k)"
  by (cases v) (auto simp: get_prop_def split: option.splits dest!: map_of_SomeD)

lemma plain_at_index: "\<forall>x \<in> set xs. plain x \<Longrightarrow> plain (at_index xs k)"
  by (simp add: at_index_def)

lemma plain_array_or_empty: "plain v \<Longrightarrow> \<forall>x \<in> set (array_or_empty v). plain x"
  by (cases v) (auto simp: array_or_empty_def)

lemma plain_field: "plain v \<Longrightarrow> plain (at_index (array_or_empty v) k)"
  using plain_array_or_empty plain_at_index by blast

lemma plain_not_throws: "plain v \<Longrightarrow> \<not> entry_throws P k v"
proof (cases v)
  case (JArr es)
  assume "plain v"
  with JArr have "\<forall>i. plain (at_index es i)" by (simp add: at_index_def)
  then have "\<forall>i. ToNumber P (at_index es i) \<noteq> Inl TypeError"
    using plain_ToNumber by (metis sum.distinct(1))
  with JArr show ?thesis by (simp add: entry_throws_def list_ex_iff)
qed (simp_all add: entry_throws_def)

lemma plain_normalizeView: "plain view \<Longrightarrow> \<exists>w. normalizeView P view n ensure = Inr w"
  unfolding normalizeView_returns
  using plain_field [of view] plain_array_or_empty plain_not_throws by blast

lemma plain_add_icon_ids:
  "\<forall>icon \<in> set icons. plain icon \<Longrightarrow> \<exists>ids'. add_icon_ids P icons ids = Inr ids'"
proof (induction icons arbitrary: ids)
  case Nil
  then show ?case by simp
next
  case (Cons icon icons)
  then have "plain (get_prop icon ''id'')" by (simp add: plain_get_prop)
  then obtain s where "ToString P (get_prop icon ''id'') = Inr s"
    using plain_ToString(1) by blast
  with Cons show ?case by simp
qed

lemma plain_buildIconIdSet: "plain ex \<Longrightarrow> \<exists>ids. buildIconIdSet P ex = Inr ids"
  by (cases ex) (auto simp: buildIconIdSet_def plain_add_icon_ids)

lemma normalize_item_cases:
  "normalize_item P ids i e = Inr it \<longleftrightarrow>
     (\<exists>s0 s1 s2.
        toSafeString P (at_index (array_or_empty e) 0) = Inr s0
        \<and> toSafeString P (at_index (array_or_empty e) 1) = Inr s1
        \<and> toSafeString P (at_index (array_or_empty e) 2) = Inr s2
        \<and> it = (if trim s0 = [] then ''Item '' @ show_nat (i + 1) else trim s0,
                normalizeIconId s1 ids, s2))"
  unfolding normalize_item_def Let_def
  by (auto split: sum.splits)

lemma normalize_item_returns:
  assumes "\<forall>k \<in> {0, 1, 2}. toSafeString P (at_index (array_or_empty e) k) \<noteq> Inl TypeError"
  shows "\<exists>it. normalize_item P ids i e = Inr it"
proof -
  have "\<exists>s. toSafeString P (at_index (array_or_empty e) k) = Inr s" if "k \<in> {0, 1, 2}" for k
    using assms that by (cases "toSafeString P (at_index (array_or_empty e) k)")
      (auto simp: error_is_TypeError)
  from this [of 0] this [of 1] this [of 2] show ?thesis
    by (auto simp: normalize_item_def Let_def)
qed

lemma normalize_items_nth:
  "normalize_items P ids k xs = Inr items \<Longrightarrow>
     length items = length xs
     \<and> (\<forall>i<length xs. normalize_item P ids (k + i) (xs ! i) = Inr (items ! i))"
proof (induction xs arbitrary: k items)
  case Nil
  then show ?case by simp
next
  case (Cons x xs)
  from Cons.prems obtain it its where
    hd: "normalize_item P ids k x = Inr it" and
    tl: "normalize_items P ids (Suc k) xs = Inr its" and items: "items = it # its"
    by (auto split: sum.splits)
  from Cons.IH [OF tl] hd items show ?case
    by (auto simp: nth_Cons split: nat.splits)
qed

lemma normalize_items_returns:
  "\<forall>e \<in> set xs. \<forall>k \<in> {0, 1, 2}.
      toSafeString P (at_index (array_or_empty e) k) \<noteq> Inl TypeError \<Longrightarrow>
     \<exists>items. normalize_items P ids k xs = Inr items"
proof (induction xs arbitrary: k)
  case Nil
  then show ?case by simp
next
  case (Cons x xs)
  then obtain it where "normalize_item P ids k x = Inr it"
    using normalize_item_returns [of P x ids k] by auto
  moreover from Cons obtain its where "normalize_items P ids (Suc k) xs = Inr its"
    by fastforce
  ultimately show ?case by simp
qed

lemma absent_description: "length es \<le> 2 \<Longrightarrow> toSafeString P (at_index es 2) = Inr []"
  by (simp add: at_index_def toSafeString_def)


lemma normalize_items_fields:
  assumes "normalize_items P ids 0 xs = Inr items" and "i < length xs"
  shows "\<exists>s0 s1 s2.
           toSafeString P (at_index (array_or_empty (xs ! i)) 0) = Inr s0
         \<and> toSafeString P (at_index (array_or_empty (xs ! i)) 1) = Inr s1
         \<and> toSafeString P (at_index (array_or_empty (xs ! i)) 2) = Inr s2
         \<and> items ! i = (if trim s0 = [] then ''Item '' @ show_nat (i + 1) else trim s0,
                        normalizeIconId s1 ids, s2)
         \<and> (length (array_or_empty (xs ! i)) \<le> 2 \<longrightarrow> s2 = [])"
proof -
  from normalize_items_nth [OF assms(1)] assms(2)
  have "normalize_item P ids i (xs ! i) = Inr (items ! i)" by simp
  then obtain s0 s1 s2 where f:
    "toSafeString P (at_index (array_or_empty (xs ! i)) 0) = Inr s0"
    "toSafeString P (at_index (array_or_empty (xs ! i)) 1) = Inr s1"
    "toSafeString P (at_index (array_or_empty (xs ! i)) 2) = Inr s2"
    "items ! i = (if trim s0 = [] then ''Item '' @ show_nat (i + 1) else trim s0,
                        normalizeIconId s1 ids, s2)"
    unfolding normalize_item_cases by blast
  have "s2 = []" if "length (array_or_empty (xs ! i)) \<le> 2"
    using absent_description [OF that, of P] f(3) by simp
  with f show ?thesis by blast
qed

lemma diagram_items:
  assumes "normalizeCompactDiagram P raw ex = Inr d" and "buildIconIdSet P ex = Inr ids"
    and "get_prop raw ''i'' = JArr xs"
  shows "normalize_items P ids 0 xs = Inr (diagram_i d)"
  using assms(1)
  by (rule normalizeCompactDiagram_parts) (use assms(2,3) in \<open>simp add: array_or_empty_def\<close>)

text \<open>
  Claim C4, amended. For a raw item array whose entries' first three fields can be coerced
  to strings (strings, numbers, booleans, \<open>null\<close> and missing fields always can), item
  normalization returns a list of the same length in the same order; the name at
  index \<open>i\<close> is the trimmed coercion of the first field, or \<open>Item <i+1>\<close> when that is
  empty, the icon is the resolver applied to the coerced second field, and the
  description is the coerced third field, empty when the field is absent. This list is
  the item list of the normalized diagram.
\<close>

theorem item_normalization_preserves_order:
  assumes "\<forall>e \<in> set xs. \<forall>k \<in> {0, 1, 2}.
             toSafeString P (at_index (array_or_empty e) k) \<noteq> Inl TypeError"
  shows "\<exists>items.
           normalize_items P ids 0 xs = Inr items
         \<and> length items = length xs
         \<and> (\<forall>i<length xs. \<exists>s0 s1 s2.
               toSafeString P (at_index (array_or_empty (xs ! i)) 0) = Inr s0
             \<and> toSafeString P (at_index (array_or_empty (xs ! i)) 1) = Inr s1
             \<and> toSafeString P (at_index (array_or_empty (xs ! i)) 2) = Inr s2
             \<and> items ! i = (if trim s0 = [] then ''Item '' @ show_nat (i + 1) else trim s0,
                            normalizeIconId s1 ids, s2)
             \<and> (length (array_or_empty (xs ! i)) \<le> 2 \<longrightarrow> s2 = []))
         \<and> (\<forall>d. normalizeCompactDiagram P raw ex = Inr d \<and> buildIconIdSet P ex = Inr ids
                 \<and> get_prop raw ''i'' = JArr xs \<longrightarrow> diagram_i d = items)"
proof -
  from normalize_items_returns [OF assms] obtain items where
    run: "normalize_items P ids 0 xs = Inr items" by blast
  have "length items = length xs"
    using normalize_items_nth [OF run] by simp
  moreover have "\<forall>d. normalizeCompactDiagram P raw ex = Inr d \<and> buildIconIdSet P ex = Inr ids
                 \<and> get_prop raw ''i'' = JArr xs \<longrightarrow> diagram_i d = items"
    using diagram_items run by fastforce
  ultimately show ?thesis
    using run normalize_items_fields [OF run] by blast
qed

text \<open>
  The theorem on four raw entries: padded name and noisy icon, missing name, a
  non-array, a blank name.
\<close>

theorem item_normalization_preserves_order_witness:
  "normalize_items example_platform (set AVAILABLE_ICON_IDS) 0
     [JArr [JStr ''  Web  '', JStr ''Load Balancer'', JStr ''front''],
      JArr [JNull, JStr ''nope''],
      JBool True,
      JArr [JStr '' '', JStr ''redis'']]
   = Inr [(''Web'', ''loadbalancer'', ''front''),
          (''Item 2'', ''block'', []),
          (''Item 3'', ''block'', []),
          (''Item 4'', ''cache'', [])]
   \<and> length [(''Web'', ''loadbalancer'', ''front''), (''Item 2'', ''block'', []),
              (''Item 3'', ''block'', []), (''Item 4'', ''cache'', []) :: item]
       = length [JArr [JStr ''  Web  '', JStr ''Load Balancer'', JStr ''front''],
                 JArr [JNull, JStr ''nope''], JBool True, JArr [JStr '' '', JStr ''redis'']]"
proof -
  let ?xs = "[JArr [JStr ''  Web  '', JStr ''Load Balancer'', JStr ''front''],
      JArr [JNull, JStr ''nope''],
      JBool True,
      JArr [JStr '' '', JStr ''redis'']]"
  let ?items = "[(''Web'', ''loadbalancer'', ''front''), (''Item 2'', ''block'', []),
              (''Item 3'', ''block'', []), (''Item 4'', ''cache'', []) :: item]"
  have ok: "\<forall>e \<in> set ?xs. \<forall>k \<in> {0, 1, 2}.
             toSafeString example_platform (at_index (array_or_empty e) k) \<noteq> Inl TypeError"
    by (simp add: toSafeString_def at_index_def array_or_empty_def)
  have run: "normalize_items example_platform (set AVAILABLE_ICON_IDS) 0 ?xs = Inr ?items"
    by code_simp
  from item_normalization_preserves_order [OF ok, of "set AVAILABLE_ICON_IDS"] run
  have "length ?items = length ?xs"
    by auto
  with run show ?thesis by blast
qed


text \<open>
  Claim C4, as stated, fails: on an item array holding an entry whose name is an object
  with an own \<open>toString\<close> property, item normalization throws and returns no list.
\<close>

theorem item_normalization_counterexample:
  "normalize_items example_platform (set AVAILABLE_ICON_IDS) 0
     [JArr [JObj [(''toString'', JNum (Fin 1))], JStr ''block'']]
   = Inl TypeError"
  by code_simp

lemma plain_normalize_items:
  assumes "\<forall>e \<in> set xs. plain e"
  shows "\<exists>items. normalize_items P ids k xs = Inr items"
proof (rule normalize_items_returns, intro ballI)
  fix e j assume "e \<in> set xs"
  with assms have "plain (at_index (array_or_empty e) j)" by (simp add: plain_field)
  then show "toSafeString P (at_index (array_or_empty e) j) \<noteq> Inl TypeError"
    using plain_toSafeString [of _ P] by fastforce
qed

lemma plain_normalize_views:
  "\<forall>view \<in> set views. plain view \<Longrightarrow> \<exists>ws. normalize_views P n k views = Inr ws"
proof (induction views arbitrary: k)
  case Nil
  then show ?case by simp
next
  case (Cons view views)
  then obtain w where "normalizeView P view n (k = 0) = Inr w"
    using plain_normalizeView [of view P n "k = 0"] by auto
  moreover from Cons obtain ws where "normalize_views P n (Suc k) views = Inr ws"
    by fastforce
  ultimately show ?case by simp
qed

lemma plain_normalizeCompactDiagram:
  assumes "plain raw" and "plain ex"
  shows "\<exists>d. normalizeCompactDiagram P raw ex = Inr d"
proof -
  let ?rv = "array_or_empty (get_prop raw ''v'')"
  let ?views = "if ?rv \<noteq> [] then ?rv else [JArr []]"
  from assms(2) obtain ids where ids: "buildIconIdSet P ex = Inr ids"
    using plain_buildIconIdSet by blast
  from assms(1) obtain ts where ts: "toSafeString P (get_prop raw ''t'') = Inr ts"
    using plain_get_prop plain_toSafeString by blast
  from assms(1) obtain items where
    items: "normalize_items P ids 0 (array_or_empty (get_prop raw ''i'')) = Inr items"
    using plain_normalize_items plain_array_or_empty plain_get_prop by blast
  have "\<forall>view \<in> set ?views. plain view"
    using assms(1) plain_array_or_empty [OF plain_get_prop, of raw "''v''"] by auto
  then obtain ws where "normalize_views P (length items) 0 ?views = Inr ws"
    using plain_normalize_views by blast
  with ids ts items show ?thesis
    by (simp add: normalizeCompactDiagram_def Let_def)
qed

lemma normalized_title:
  assumes "normalizeCompactDiagram P raw ex = Inr d"
  shows "diagram_t d \<noteq> []"
    and "\<And>ts. toSafeString P (get_prop raw ''t'') = Inr ts \<Longrightarrow> trim ts = [] \<Longrightarrow>
           diagram_t d = ''Untitled''"
proof -
  from assms obtain ts' where
    ts': "toSafeString P (get_prop raw ''t'') = Inr ts'"
    and t: "diagram_t d = (if trim ts' = [] then ''Untitled'' else trim ts')"
    by (rule normalizeCompactDiagram_parts)
  from t show "diagram_t d \<noteq> []" by (cases "trim ts' = []") simp_all
  fix ts assume "toSafeString P (get_prop raw ''t'') = Inr ts" "trim ts = []"
  with ts' t show "diagram_t d = ''Untitled''" by simp
qed

lemma normalizeView_empty:
  "normalizeView P (JArr []) n True = Inr (autoLayoutPositions n {}, [])"
  by (simp add: normalizeView_def array_or_empty_def at_index_def)

lemma normalized_no_views:
  assumes "normalizeCompactDiagram P raw ex = Inr d" and "array_or_empty (get_prop raw ''v'') = []"
  shows "diagram_v d = [(autoLayoutPositions (length (diagram_i d)) {}, [])]"
  using assms(1)
  by (rule normalizeCompactDiagram_parts) (use assms(2) in \<open>auto simp: normalizeView_empty\<close>)

text \<open>
  Claim C6, amended. On every input value none of whose objects has an own property
  \<open>toString\<close> (with existing icons of the same kind), also on non-objects and on inputs
  missing any field, the diagram normalizer returns; and whenever it returns, the title
  is non-empty, \<open>Untitled\<close> when the raw title is absent or blank after trimming, and
  the view list has at least one entry: when the raw view list is empty or absent it is
  the normalization of one empty raw view, the auto-layout of all items without
  connections.
\<close>

theorem normalizer_total_on_plain_values:
  "(plain raw \<and> plain ex \<longrightarrow> (\<exists>d. normalizeCompactDiagram P raw ex = Inr d))
   \<and> (normalizeCompactDiagram P raw ex = Inr d \<longrightarrow>
        diagram_t d \<noteq> [] \<and> diagram_v d \<noteq> []
        \<and> (toSafeString P (get_prop raw ''t'') = Inr ts \<and> trim ts = [] \<longrightarrow>
             diagram_t d = ''Untitled'')
        \<and> (array_or_empty (get_prop raw ''v'') = [] \<longrightarrow>
             diagram_v d = [(autoLayoutPositions (length (diagram_i d)) {}, [])]))"
  using plain_normalizeCompactDiagram [of raw ex P] normalized_title [of P raw ex d]
    normalized_views(1) [of P raw ex d] normalized_no_views [of P raw ex d]
  by blast

text \<open>The theorem on \<open>null\<close> and on an object with a blank title, one item and no views.\<close>

theorem normalizer_total_on_plain_values_witness:
  "plain JNull
   \<and> normalizeCompactDiagram example_platform JNull JNull
       = Inr \<lparr>diagram_t = ''Untitled'', diagram_i = [], diagram_v = [([], [])],
              diagram_meta = (''compact'', ''1.0'')\<rparr>
   \<and> plain (JObj [(''t'', JStr ''   ''), (''i'', JArr [JArr [JStr ''A'']])])
   \<and> normalizeCompactDiagram example_platform
        (JObj [(''t'', JStr ''   ''), (''i'', JArr [JArr [JStr ''A'']])]) JNull
       = Inr \<lparr>diagram_t = ''Untitled'', diagram_i = [(''A'', ''block'', [])],
              diagram_v = [([(Fin 0, Fin 0, Fin 0)], [])],
              diagram_meta = (''compact'', ''1.0'')\<rparr>
   \<and> ''Untitled'' \<noteq> []"
proof -
  let ?raw = "JObj [(''t'', JStr ''   ''), (''i'', JArr [JArr [JStr ''A'']])]"
  let ?d = "\<lparr>diagram_t = ''Untitled'', diagram_i = [(''A'', ''block'', [])],
              diagram_v = [([(Fin 0, Fin 0, Fin 0)], [])],
              diagram_meta = (''compact'', ''1.0'')\<rparr>"
  have p1: "plain JNull" and p2: "plain ?raw" by simp_all
  have run1: "normalizeCompactDiagram example_platform JNull JNull
       = Inr \<lparr>diagram_t = ''Untitled'', diagram_i = [], diagram_v = [([], [])],
              diagram_meta = (''compact'', ''1.0'')\<rparr>"
    by code_simp
  have run2: "normalizeCompactDiagram example_platform ?raw JNull = Inr ?d"
    by code_simp
  have blank: "toSafeString example_platform (get_prop ?raw ''t'') = Inr ''   '' \<and> trim ''   '' = []"
    by code_simp
  have noviews: "array_or_empty (get_prop ?raw ''v'') = []"
    by code_simp
  from normalizer_total_on_plain_values [of ?raw JNull example_platform ?d "''   ''"]
    p1 p2 run2 blank noviews
  have "diagram_t ?d \<noteq> []" by blast
  then have "''Untitled'' \<noteq> []" by simp
  with p1 p2 run1 run2 show ?thesis by blast
qed

text \<open>
  Claim C6, as stated, fails: on an input whose title is an object with an own
  \<open>toString\<close> property the normalizer throws.
\<close>

theorem normalizer_total_counterexample:
  "normalizeCompactDiagram example_platform
     (JObj [(''t'', JObj [(''toString'', JNum (Fin 1))])]) (JArr [])
   = Inl TypeError"
  by code_simp

section \<open>Idempotence\<close>

subsection \<open>Trimming\<close>

lemma dropWhile_unchanged: "xs = [] \<or> \<not> p (hd xs) \<Longrightarrow> dropWhile p xs = xs"
  by (cases xs) auto

lemma trimmed_fixpoint: "trimmed s \<Longrightarrow> trim s = s"
proof (cases "s = []")
  case True
  then show ?thesis by (simp add: trim_def)
next
  case False
  assume "trimmed s"
  with False have h: "\<not> isWhiteSpace (hd s)" and l: "\<not> isWhiteSpace (last s)"
    by (simp_all add: trimmed_def)
  from h have "dropWhile isWhiteSpace s = s" by (simp add: dropWhile_unchanged)
  moreover from l False have "dropWhile isWhiteSpace (rev s) = rev s"
    by (simp add: dropWhile_unchanged hd_rev)
  ultimately show ?thesis by (simp add: trim_def)
qed

lemma trimmed_trim: "trimmed (trim s)"
proof -
  let ?u = "dropWhile isWhiteSpace s"
  let ?t = "rev (dropWhile isWhiteSpace (rev ?u))"
  have split: "?u = ?t @ rev (takeWhile isWhiteSpace (rev ?u))"
    by (metis rev_append rev_rev_ident takeWhile_dropWhile_id)
  show ?thesis
  proof (cases "?t = []")
    case True
    then show ?thesis by (simp add: trimmed_def trim_def)
  next
    case False
    then have "hd ?t = hd ?u" using split by (metis hd_append2)
    moreover have "?u \<noteq> []"
    proof
      assume u: "?u = []"
      have "?t = []" unfolding u by simp
      with False show False ..
    qed
    then have "\<not> isWhiteSpace (hd ?u)" by (rule hd_dropWhile)
    ultimately have h: "\<not> isWhiteSpace (hd ?t)" by simp
    from False have "dropWhile isWhiteSpace (rev ?u) \<noteq> []" by simp
    then have "\<not> isWhiteSpace (hd (dropWhile isWhiteSpace (rev ?u)))" by (rule hd_dropWhile)
    with False have l: "\<not> isWhiteSpace (last ?t)" by (simp add: last_rev)
    from h l show ?thesis by (simp add: trimmed_def trim_def)
  qed
qed

lemma trim_idem: "trim (trim s) = trim s"
  by (simp add: trimmed_fixpoint trimmed_trim)

lemma digit_not_space: "\<not> isWhiteSpace (digit_char n)"
proof -
  have "\<forall>c \<in> set ''0123456789''. \<not> isWhiteSpace c"
    by (simp add: isWhiteSpace_def)
  moreover have "''0123456789'' ! (n mod 10) \<in> set ''0123456789''"
    by (rule nth_mem) simp
  ultimately show ?thesis
    unfolding digit_char_def by blast
qed

lemma show_nat_last: "show_nat n \<noteq> [] \<and> last (show_nat n) = digit_char n"
  by (simp add: show_nat_def)

lemma item_name_trimmed: "trimmed (''Item '' @ show_nat n)"
  using show_nat_last [of n] digit_not_space [of n]
  by (simp add: trimmed_def isWhiteSpace_def)

lemma untitled_trimmed: "trimmed ''Untitled''"
  by (simp add: trimmed_def isWhiteSpace_def)


subsection \<open>The resolver on its own results\<close>

lemma upper_not_space: "isUpper c \<Longrightarrow> \<not> isWhiteSpace c"
  unfolding isUpper_def isWhiteSpace_def Let_def by auto

lemma lower_char_space: "isWhiteSpace (lower_char c) = isWhiteSpace c"
proof (cases "isUpper c")
  case False
  then show ?thesis by (simp add: lower_char_def)
next
  case True
  define k where "k = (of_char c :: nat)"
  from True have r: "(65 \<le> k \<and> k \<le> 90) \<or> (192 \<le> k \<and> k \<le> 214) \<or> (216 \<le> k \<and> k \<le> 222)"
    by (simp add: isUpper_def Let_def k_def)
  then have "(k + 32) mod 256 = k + 32" by auto
  then have "(of_char (char_of (k + 32)) :: nat) = k + 32" by simp
  moreover from r have "k + 32 \<noteq> 9 \<and> k + 32 \<noteq> 10 \<and> k + 32 \<noteq> 11 \<and> k + 32 \<noteq> 12
      \<and> k + 32 \<noteq> 13 \<and> k + 32 \<noteq> 32 \<and> k + 32 \<noteq> 160"
    by arith
  ultimately have "\<not> isWhiteSpace (char_of (k + 32))"
    by (simp add: isWhiteSpace_def)
  with True upper_not_space [OF True] show ?thesis by (simp add: lower_char_def k_def)
qed

lemma trimmed_map:
  assumes "trimmed s" and "\<And>c. \<not> isWhiteSpace c \<Longrightarrow> \<not> isWhiteSpace (f c)"
  shows "trimmed (map f s)"
proof (cases "s = []")
  case True
  then show ?thesis by (simp add: trimmed_def)
next
  case False
  with assms(1) have "\<not> isWhiteSpace (hd s)" and "\<not> isWhiteSpace (last s)"
    by (simp_all add: trimmed_def)
  then have "\<not> isWhiteSpace (f (hd s))" and "\<not> isWhiteSpace (f (last s))"
    using assms(2) by blast+
  with False show ?thesis by (simp add: trimmed_def hd_map last_map)
qed

lemma trimmed_toLowerCase: "trimmed s \<Longrightarrow> trimmed (toLowerCase s)"
  unfolding toLowerCase_def by (rule trimmed_map) (simp_all add: lower_char_space)

lemma trimmed_hyphens: "trimmed s \<Longrightarrow> trimmed (underscores_to_hyphens s)"
  unfolding underscores_to_hyphens_def
  by (rule trimmed_map) (simp_all add: isWhiteSpace_def)

lemma filter_dropWhile: "filter (\<lambda>c. \<not> p c) (dropWhile p cs) = filter (\<lambda>c. \<not> p c) cs"
  by (induction cs) auto

lemma replace_runs_delete: "replace_runs p [] s = filter (\<lambda>c. \<not> p c) s"
  by (induction p "[] :: string" s rule: replace_runs.induct) (simp_all add: filter_dropWhile)

lemma trimmed_no_space: "\<forall>c \<in> set s. \<not> isWhiteSpace c \<Longrightarrow> trimmed s"
  by (cases "s = []") (simp_all add: trimmed_def)

lemma trimmed_compact: "trimmed (replace_runs isSeparator [] s)"
  unfolding replace_runs_delete by (rule trimmed_no_space) (simp add: isSeparator_def)

lemma alias_values_trimmed: "\<forall>m \<in> snd ` set LEGACY_ICON_MAP. trimmed m"
  by (simp add: LEGACY_ICON_MAP_def trimmed_def isWhiteSpace_def)

lemma candidates_trimmed:
  assumes "m \<in> set (icon_candidates s)"
  shows "trimmed m"
proof -
  let ?raw = "toLowerCase (trim s)"
  have raw: "trimmed ?raw" by (simp add: trimmed_toLowerCase trimmed_trim)
  from assms consider "m = ?raw" | k where "legacy_lookup k = Alias m"
    | "m = underscores_to_hyphens ?raw" | "m = replace_runs isSeparator [] ?raw"
    by (auto simp: icon_candidates_def Let_def split: legacy_entry.splits)
  then show ?thesis
  proof cases
    case 1 with raw show ?thesis by simp
  next
    case 2
    with alias_values_trimmed legacy_lookup_alias show ?thesis by blast
  next
    case 3
    with raw show ?thesis by (simp add: trimmed_hyphens)
  next
    case 4
    then show ?thesis by (simp add: trimmed_compact)
  qed
qed

lemma normalizeIconId_trimmed: "trimmed (normalizeIconId s ids)"
proof -
  have "trimmed ''block''" by (simp add: trimmed_def isWhiteSpace_def)
  with normalizeIconId_cases [of s ids] candidates_trimmed show ?thesis
    by (metis IntD1)
qed

lemma toLowerCase_fixpoint: "\<forall>c \<in> set r. \<not> isUpper c \<Longrightarrow> toLowerCase r = r"
  by (simp add: toLowerCase_def lower_char_def map_idI)

lemma normalizeIconId_fixpoint:
  "r \<in> ids \<Longrightarrow> r \<noteq> [] \<Longrightarrow> trimmed r \<Longrightarrow> \<forall>c \<in> set r. \<not> isUpper c \<Longrightarrow>
     normalizeIconId r ids = r"
  by (simp add: normalizeIconId_def trimmed_fixpoint toLowerCase_fixpoint)

lemma resolver_stable:
  assumes "''block'' \<in> ids" and "[] \<notin> ids"
  shows "normalizeIconId (normalizeIconId s ids) ids = normalizeIconId s ids"
proof (rule normalizeIconId_fixpoint)
  show "normalizeIconId s ids \<in> ids" using assms(1) by (rule normalizeIconId_member)
  then show "normalizeIconId s ids \<noteq> []" using assms(2) by auto
  show "trimmed (normalizeIconId s ids)" by (rule normalizeIconId_trimmed)
  show "\<forall>c \<in> set (normalizeIconId s ids). \<not> isUpper c"
    using normalizeIconId_lower by blast
qed


subsection \<open>A normalized view is a fixed point\<close>

lemma Math_round_of_integer: "is_integer x \<Longrightarrow> Math_round x = x"
proof (cases x)
  case (Fin q)
  assume "is_integer x"
  with Fin have "q = of_int \<lfloor>q\<rfloor>" by (simp add: is_integer_def)
  then obtain z where "q = of_int z" ..
  then have "\<lfloor>q + 1 / 2\<rfloor> = z" by (simp add: floor_unique)
  with \<open>q = of_int z\<close> Fin show ?thesis by simp
qed (simp_all add: is_integer_def)

lemma is_integer_finite: "is_integer x \<Longrightarrow> isFinite x"
  by (cases x) (simp_all add: is_integer_def isFinite_def)

lemma position_entry_emitted:
  "emitted_position n p \<Longrightarrow> position_entry P n (position_js p) = Some p"
  by (cases p)
    (auto simp: emitted_position_def position_entry_def position_js_def at_index_def
      ToNumber_def in_range_finite is_integer_finite Math_round_of_integer)

lemma position_step_emitted:
  assumes "emitted_position n p"
  shows "position_step P n (position_js p) st
           = Inr (if fst p \<in> snd st then st else (fst st @ [p], insert (fst p) (snd st)))"
proof -
  have "\<not> entry_throws P 3 (position_js p)"
    by (cases p) (simp add: position_js_def entry_throws_def list_ex_upt_3 ToNumber_def at_index_def)
  then obtain st' where st': "position_step P n (position_js p) st = Inr st'"
    using position_step_throws [of P n "position_js p" st TypeError]
    by (cases "position_step P n (position_js p) st") (auto simp: error_is_TypeError)
  from position_step_entry [OF st'] position_entry_emitted [OF assms, of P] st'
  show ?thesis by simp
qed

lemma positions_loop_emitted:
  "\<forall>p \<in> set ps. emitted_position n p \<Longrightarrow> distinct (map fst ps) \<Longrightarrow>
   fst ` set ps \<inter> snd st = {} \<Longrightarrow>
     positions_loop P n (map position_js ps) st
       = Inr (fst st @ ps, snd st \<union> fst ` set ps)"
proof (induction ps arbitrary: st)
  case Nil
  then show ?case by simp
next
  case (Cons p ps)
  let ?st1 = "(fst st @ [p], insert (fst p) (snd st))"
  from Cons.prems have step: "position_step P n (position_js p) st = Inr ?st1"
    by (simp add: position_step_emitted)
  from Cons.prems have "fst ` set ps \<inter> snd ?st1 = {}" by auto
  with Cons.IH [of ?st1] Cons.prems
  have "positions_loop P n (map position_js ps) ?st1
          = Inr (fst ?st1 @ ps, snd ?st1 \<union> fst ` set ps)"
    by simp
  with step show ?case by simp
qed

lemma connection_step_emitted:
  assumes "in_range n (fst c)" and "in_range n (snd c)"
  shows "connection_step P n (connection_js c) cs = Inr (cs @ [c])"
proof -
  have "\<not> entry_throws P 2 (connection_js c)"
    by (cases c) (simp add: connection_js_def entry_throws_def list_ex_upt_2 ToNumber_def at_index_def)
  then obtain cs' where cs': "connection_step P n (connection_js c) cs = Inr cs'"
    using connection_step_throws [of P n "connection_js c" cs TypeError]
    by (cases "connection_step P n (connection_js c) cs") (auto simp: error_is_TypeError)
  have "connection_entry P n (connection_js c) = Some c"
    using assms connection_entry_numbers [of P n "fst c" "snd c"]
    by (cases c) (simp add: connection_js_def)
  with connection_step_entry [OF cs'] cs' show ?thesis by simp
qed

lemma connections_loop_emitted:
  "\<forall>c \<in> set cs. in_range n (fst c) \<and> in_range n (snd c) \<Longrightarrow>
     connections_loop P n (map connection_js cs) acc = Inr (acc @ cs)"
  by (induction cs arbitrary: acc) (simp_all add: connection_step_emitted)

lemma auto_loop_all_used:
  "\<forall>i \<in> set idxs. Fin (of_nat i) \<in> used \<Longrightarrow> auto_loop columns used idxs placed = []"
  by (induction idxs) simp_all

lemma autoLayoutPositions_all_used:
  "\<forall>i<n. Fin (of_nat i) \<in> used \<Longrightarrow> autoLayoutPositions n used = []"
  by (simp add: autoLayoutPositions_def auto_loop_all_used)

lemma normalizeView_fixpoint:
  assumes "\<forall>p \<in> set ps. emitted_position n p" and "distinct (map fst ps)"
    and "\<forall>c \<in> set cs. in_range n (fst c) \<and> in_range n (snd c)"
    and "ensure \<longrightarrow> (\<forall>i<n. Fin (of_nat i) \<in> fst ` set ps)"
  shows "normalizeView P (view_js (ps, cs)) n ensure = Inr (ps, cs)"
proof -
  have p: "positions_loop P n (map position_js ps) ([], {}) = Inr (ps, fst ` set ps)"
    using positions_loop_emitted [OF assms(1,2), of "([], {})" P] by simp
  have c: "connections_loop P n (map connection_js cs) [] = Inr cs"
    using connections_loop_emitted [OF assms(3), of P "[]"] by simp
  have a: "ensure \<Longrightarrow> autoLayoutPositions n (fst ` set ps) = []"
    using assms(4) by (simp add: autoLayoutPositions_all_used)
  show ?thesis
    using p c a
    by (simp add: normalizeView_def view_js_def array_or_empty_def at_index_def)
qed

lemma auto_loop_emitted:
  "\<forall>i \<in> set idxs. i < n \<Longrightarrow> p \<in> set (auto_loop columns used idxs placed) \<Longrightarrow>
     emitted_position n p"
  by (induction idxs arbitrary: placed)
    (auto simp: emitted_position_def in_range_def is_integer_def split: if_splits)

lemma autoLayoutPositions_emitted:
  "p \<in> set (autoLayoutPositions n used) \<Longrightarrow> emitted_position n p"
  using auto_loop_emitted [of "[0..<n]" n p]
  by (auto simp: autoLayoutPositions_def split: if_splits)

lemma first_occurrences_emitted:
  "p \<in> set (first_occurrences P n raw) \<Longrightarrow> emitted_position n p"
  using first_occurrences_entries position_entry_in_range position_entry_rounded
  unfolding emitted_position_def by blast

lemma normalizeView_emits:
  assumes "normalizeView P view n ensure = Inr (ps, cs)"
  shows "\<forall>p \<in> set ps. emitted_position n p" and "distinct (map fst ps)"
    and "\<forall>c \<in> set cs. in_range n (fst c) \<and> in_range n (snd c)"
    and "ensure \<longrightarrow> (\<forall>i<n. Fin (of_nat i) \<in> fst ` set ps)"
proof -
  let ?rp = "array_or_empty (at_index (array_or_empty view) 0)"
  from assms obtain st where loop: "positions_loop P n ?rp ([], {}) = Inr st"
    by (rule normalizeView_loops)
  from normalizeView_parts [OF assms]
  show "\<forall>p \<in> set ps. emitted_position n p"
    by (auto dest: first_occurrences_emitted autoLayoutPositions_emitted split: if_splits)
  show "distinct (map fst ps)"
  proof (cases ensure)
    case True
    with assms show ?thesis by (simp add: normalizeView_full_coverage(1))
  next
    case False
    with normalizeView_parts [OF assms] first_occurrences_invariant(1) [OF loop]
    show ?thesis by simp
  qed
  show "\<forall>c \<in> set cs. in_range n (fst c) \<and> in_range n (snd c)"
    using normalizeView_in_range [OF assms] by blast
  show "ensure \<longrightarrow> (\<forall>i<n. Fin (of_nat i) \<in> fst ` set ps)"
  proof (intro impI allI)
    fix i assume ensure and "i < n"
    with assms have "{a \<in> fst ` set ps. is_integer a} = (\<lambda>i. Fin (of_nat i)) ` {..<n}"
      by (simp add: normalizeView_full_coverage(2))
    with \<open>i < n\<close> show "Fin (of_nat i) \<in> fst ` set ps" by blast
  qed
qed

lemma normalizeView_idem:
  "normalizeView P view n ensure = Inr w \<Longrightarrow> normalizeView P (view_js w) n ensure = Inr w"
  using normalizeView_emits [of P view n ensure "fst w" "snd w"]
    normalizeView_fixpoint [of "fst w" n "snd w" ensure P]
  by simp


subsection \<open>Normalized items and the whole diagram\<close>

lemma normalize_item_emitted:
  "normalize_item P ids i (item_js (name, icon, description))
     = Inr (if trim name = [] then ''Item '' @ show_nat (i + 1) else trim name,
            normalizeIconId icon ids, description)"
  by (simp add: normalize_item_def item_js_def array_or_empty_def at_index_def toSafeString_def)

lemma normalize_item_stable:
  assumes "normalize_item P ids i e = Inr it" and "''block'' \<in> ids" and "[] \<notin> ids"
  shows "normalize_item P ids j (item_js it) = Inr it"
proof -
  from assms(1) obtain s0 s1 s2 where
    it: "it = (if trim s0 = [] then ''Item '' @ show_nat (i + 1) else trim s0,
               normalizeIconId s1 ids, s2)"
    unfolding normalize_item_cases by blast
  let ?name = "if trim s0 = [] then ''Item '' @ show_nat (i + 1) else trim s0"
  have "trimmed ?name"
    using item_name_trimmed [of "i + 1"] trimmed_trim [of s0] by simp
  then have "trim ?name = ?name" by (rule trimmed_fixpoint)
  moreover have "?name \<noteq> []" by simp
  moreover have "normalizeIconId (normalizeIconId s1 ids) ids = normalizeIconId s1 ids"
    using assms(2,3) by (rule resolver_stable)
  ultimately show ?thesis
    unfolding it normalize_item_emitted by simp
qed

lemma normalize_items_idem:
  "normalize_items P ids k xs = Inr items \<Longrightarrow> ''block'' \<in> ids \<Longrightarrow> [] \<notin> ids \<Longrightarrow>
     normalize_items P ids j (map item_js items) = Inr items"
proof (induction xs arbitrary: k j items)
  case Nil
  then show ?case by simp
next
  case (Cons x xs)
  from Cons.prems(1) obtain it its where
    hd: "normalize_item P ids k x = Inr it" and
    tl: "normalize_items P ids (Suc k) xs = Inr its" and items: "items = it # its"
    by (auto split: sum.splits)
  from normalize_item_stable [OF hd Cons.prems(2,3), of j]
    Cons.IH [OF tl Cons.prems(2,3), of "Suc j"] items
  show ?case by simp
qed

lemma normalize_views_idem:
  "normalize_views P n k views = Inr ws \<Longrightarrow> normalize_views P n k (map view_js ws) = Inr ws"
proof (induction views arbitrary: k ws)
  case Nil
  then show ?case by simp
next
  case (Cons view views)
  from Cons.prems obtain w ws' where
    hd: "normalizeView P view n (k = 0) = Inr w" and
    tl: "normalize_views P n (Suc k) views = Inr ws'" and ws: "ws = w # ws'"
    by (auto split: sum.splits)
  from normalizeView_idem [OF hd] Cons.IH [OF tl] ws show ?case by simp
qed

lemma string_ids_nonempty:
  "add_icon_ids P icons ids0 = Inr ids \<Longrightarrow> [] \<notin> ids0 \<Longrightarrow>
   \<forall>icon \<in> set icons. get_prop icon ''id'' = JUndefined \<or> is_string (get_prop icon ''id'') \<Longrightarrow>
     [] \<notin> ids"
proof (induction icons arbitrary: ids0)
  case Nil
  then show ?case by simp
next
  case (Cons icon icons)
  show ?case
  proof (cases "truthy (get_prop icon ''id'')")
    case False
    with Cons show ?thesis by simp
  next
    case True
    with Cons.prems(3) obtain s where s: "get_prop icon ''id'' = JStr s" "s \<noteq> []"
      by (cases "get_prop icon ''id''") (auto simp: truthy_def is_string_def)
    with True Cons.prems(1) have "add_icon_ids P icons (insert s ids0) = Inr ids" by simp
    from Cons.IH [OF this] s(2) Cons.prems(2,3) show ?thesis by simp
  qed
qed

lemma available_ids_nonempty: "[] \<notin> set AVAILABLE_ICON_IDS"
  by (simp add: AVAILABLE_ICON_IDS_def)

text \<open>When every existing icon has a string identifier (or none), the empty string is
  not a known icon.\<close>

lemma string_ids_known_icons:
  assumes "buildIconIdSet P (JArr icons) = Inr ids"
    and "\<forall>icon \<in> set icons. get_prop icon ''id'' = JUndefined \<or> is_string (get_prop icon ''id'')"
  shows "[] \<notin> ids"
proof -
  from assms(1) have "add_icon_ids P icons (set AVAILABLE_ICON_IDS) = Inr ids"
    by (simp add: buildIconIdSet_def)
  from string_ids_nonempty [OF this available_ids_nonempty assms(2)] show ?thesis .
qed

lemma diagram_js_fields:
  "get_prop (diagram_js d) ''t'' = JStr (diagram_t d)"
  "get_prop (diagram_js d) ''i'' = JArr (map item_js (diagram_i d))"
  "get_prop (diagram_js d) ''v'' = JArr (map view_js (diagram_v d))"
  by (simp_all add: diagram_js_def get_prop_def)

text \<open>
  Claim C3, amended. Normalization is idempotent on its own results whenever the empty
  string is not a known icon (as is the case when the identifiers of the existing icons
  are strings): if \<open>normalizeCompactDiagram\<close> returns \<open>d\<close> for an input and a list of
  existing icons, it returns \<open>d\<close> again for \<open>d\<close> and the same icons: same title, items, views
  and format metadata.
\<close>

theorem normalization_idempotent:
  assumes "normalizeCompactDiagram P raw ex = Inr d"
    and "buildIconIdSet P ex = Inr ids"
    and "[] \<notin> ids"
  shows "normalizeCompactDiagram P (diagram_js d) ex = Inr d"
proof -
  have block: "''block'' \<in> ids" using assms(2) by (rule block_known)
  from assms(1) obtain ids' ts where parts:
    "buildIconIdSet P ex = Inr ids'"
    "toSafeString P (get_prop raw ''t'') = Inr ts"
    "diagram_t d = (if trim ts = [] then ''Untitled'' else trim ts)"
    "normalize_items P ids' 0 (array_or_empty (get_prop raw ''i'')) = Inr (diagram_i d)"
    "normalize_views P (length (diagram_i d)) 0
       (if array_or_empty (get_prop raw ''v'') \<noteq> [] then array_or_empty (get_prop raw ''v'')
        else [JArr []]) = Inr (diagram_v d)"
    "diagram_meta d = DEFAULT_COMPACT_META"
    by (rule normalizeCompactDiagram_parts)
  from parts(1) assms(2) have ids': "ids' = ids" by simp
  have "trimmed (diagram_t d)"
    unfolding parts(3) by (simp add: untitled_trimmed trimmed_trim)
  then have title: "trim (diagram_t d) = diagram_t d" by (rule trimmed_fixpoint)
  have title_ne: "diagram_t d \<noteq> []" unfolding parts(3) by simp
  have items: "normalize_items P ids 0 (map item_js (diagram_i d)) = Inr (diagram_i d)"
    using normalize_items_idem [OF parts(4) [unfolded ids'] block assms(3)] .
  have views_ne: "diagram_v d \<noteq> []" using assms(1) by (rule normalized_views(1))
  have views: "normalize_views P (length (diagram_i d)) 0 (map view_js (diagram_v d))
                 = Inr (diagram_v d)"
    using normalize_views_idem [OF parts(5)] .
  have "normalizeCompactDiagram P (diagram_js d) ex
          = Inr \<lparr>diagram_t = diagram_t d, diagram_i = diagram_i d, diagram_v = diagram_v d,
                 diagram_meta = DEFAULT_COMPACT_META\<rparr>"
    using assms(2) title title_ne items views views_ne
    by (simp add: normalizeCompactDiagram_def diagram_js_fields toSafeString_def
          array_or_empty_def Let_def)
  also have "\<lparr>diagram_t = diagram_t d, diagram_i = diagram_i d, diagram_v = diagram_v d,
                 diagram_meta = DEFAULT_COMPACT_META\<rparr> = d"
    using parts(6) by simp
  finally show ?thesis .
qed

text \<open>
  The theorem on the specification's end-to-end example, with one host icon.
\<close>

theorem normalization_idempotent_witness:
  "normalizeCompactDiagram example_platform
     (JObj [(''t'', JStr ''Demo''),
            (''i'', JArr [JArr [JStr ''A'', JStr ''block''],
                          JArr [JStr ''B'', JStr ''unknown_icon_xyz'']]),
            (''v'', JArr [JArr [JArr [JArr [JNum (Fin 0), JNum (Fin 0), JNum (Fin 0)]],
                                JArr [JArr [JNum (Fin 0), JNum (Fin 1)]]]])])
     (JArr [JObj [(''id'', JStr ''MyIcon'')]])
   = Inr \<lparr>diagram_t = ''Demo'',
          diagram_i = [(''A'', ''block'', []), (''B'', ''block'', [])],
          diagram_v = [([(Fin 0, Fin 0, Fin 0), (Fin 1, Fin 0, Fin 0)], [(Fin 0, Fin 1)])],
          diagram_meta = (''compact'', ''1.0'')\<rparr>
   \<and> buildIconIdSet example_platform (JArr [JObj [(''id'', JStr ''MyIcon'')]])
       = Inr (insert ''MyIcon'' (set AVAILABLE_ICON_IDS))
   \<and> [] \<notin> insert ''MyIcon'' (set AVAILABLE_ICON_IDS)
   \<and> normalizeCompactDiagram example_platform
        (diagram_js \<lparr>diagram_t = ''Demo'',
          diagram_i = [(''A'', ''block'', []), (''B'', ''block'', [])],
          diagram_v = [([(Fin 0, Fin 0, Fin 0), (Fin 1, Fin 0, Fin 0)], [(Fin 0, Fin 1)])],
          diagram_meta = (''compact'', ''1.0'')\<rparr>)
        (JArr [JObj [(''id'', JStr ''MyIcon'')]])
     = Inr \<lparr>diagram_t = ''Demo'',
          diagram_i = [(''A'', ''block'', []), (''B'', ''block'', [])],
          diagram_v = [([(Fin 0, Fin 0, Fin 0), (Fin 1, Fin 0, Fin 0)], [(Fin 0, Fin 1)])],
          diagram_meta = (''compact'', ''1.0'')\<rparr>"
proof -
  let ?raw = "JObj [(''t'', JStr ''Demo''),
            (''i'', JArr [JArr [JStr ''A'', JStr ''block''],
                          JArr [JStr ''B'', JStr ''unknown_icon_xyz'']]),
            (''v'', JArr [JArr [JArr [JArr [JNum (Fin 0), JNum (Fin 0), JNum (Fin 0)]],
                                JArr [JArr [JNum (Fin 0), JNum (Fin 1)]]]])]"
  let ?ex = "JArr [JObj [(''id'', JStr ''MyIcon'')]]"
  let ?d = "\<lparr>diagram_t = ''Demo'',
          diagram_i = [(''A'', ''block'', []), (''B'', ''block'', [])],
          diagram_v = [([(Fin 0, Fin 0, Fin 0), (Fin 1, Fin 0, Fin 0)], [(Fin 0, Fin 1)])],
          diagram_meta = (''compact'', ''1.0'')\<rparr>"
  have run: "normalizeCompactDiagram example_platform ?raw ?ex = Inr ?d"
    by code_simp
  have built: "buildIconIdSet example_platform ?ex = Inr (insert ''MyIcon'' (set AVAILABLE_ICON_IDS))"
    by (simp add: buildIconIdSet_def get_prop_def truthy_def)
  have known: "[] \<notin> insert ''MyIcon'' (set AVAILABLE_ICON_IDS)"
    by (simp add: AVAILABLE_ICON_IDS_def)
  from normalization_idempotent [OF run built known] run built known
  show ?thesis by blast
qed

text \<open>
  Claim C3, as stated, fails: with an existing icon whose identifier is the empty array,
  the empty string becomes a known icon; the label \<open>-\<close> then resolves to the empty string,
  which a second normalization resolves to \<open>block\<close>.
\<close>

theorem normalization_idempotent_counterexample:
  "normalizeCompactDiagram example_platform
     (JObj [(''i'', JArr [JArr [JStr ''A'', JStr ''-'']])])
     (JArr [JObj [(''id'', JArr [])]])
   = Inr \<lparr>diagram_t = ''Untitled'', diagram_i = [(''A'', [], [])],
          diagram_v = [([(Fin 0, Fin 0, Fin 0)], [])],
          diagram_meta = (''compact'', ''1.0'')\<rparr>
   \<and> normalizeCompactDiagram example_platform
        (diagram_js \<lparr>diagram_t = ''Untitled'', diagram_i = [(''A'', [], [])],
          diagram_v = [([(Fin 0, Fin 0, Fin 0)], [])],
          diagram_meta = (''compact'', ''1.0'')\<rparr>)
        (JArr [JObj [(''id'', JArr [])]])
     = Inr \<lparr>diagram_t = ''Untitled'', diagram_i = [(''A'', ''block'', [])],
          diagram_v = [([(Fin 0, Fin 0, Fin 0)], [])],
          diagram_meta = (''compact'', ''1.0'')\<rparr>
   \<and> [(''A'', [], []) :: item] \<noteq> [(''A'', ''block'', [])]"
proof -
  have first: "normalizeCompactDiagram example_platform
     (JObj [(''i'', JArr [JArr [JStr ''A'', JStr ''-'']])])
     (JArr [JObj [(''id'', JArr [])]])
   = Inr \<lparr>diagram_t = ''Untitled'', diagram_i = [(''A'', [], [])],
          diagram_v = [([(Fin 0, Fin 0, Fin 0)], [])],
          diagram_meta = (''compact'', ''1.0'')\<rparr>"
    by code_simp
  have second: "normalizeCompactDiagram example_platform
        (diagram_js \<lparr>diagram_t = ''Untitled'', diagram_i = [(''A'', [], [])],
          diagram_v = [([(Fin 0, Fin 0, Fin 0)], [])],
          diagram_meta = (''compact'', ''1.0'')\<rparr>)
        (JArr [JObj [(''id'', JArr [])]])
     = Inr \<lparr>diagram_t = ''Untitled'', diagram_i = [(''A'', ''block'', [])],
          diagram_v = [([(Fin 0, Fin 0, Fin 0)], [])],
          diagram_meta = (''compact'', ''1.0'')\<rparr>"
    by code_simp
  from first second show ?thesis by simp
qed

section \<open>Icon resolver: the first known candidate\<close>

lemma normalizeIconId_first_known:
  "normalizeIconId s ids = first_known_candidate s ids"
  by (simp add: normalizeIconId_def first_known_candidate_def icon_candidates_def Let_def
      split: legacy_entry.splits)

lemma normalizeIconId_lower_fixpoint:
  "toLowerCase (normalizeIconId s ids) = normalizeIconId s ids"
  using normalizeIconId_lower [of _ s ids] by (simp add: toLowerCase_fixpoint)

lemma upper_changes: "isUpper c \<Longrightarrow> lower_char c \<noteq> c"
  using lower_char_not_upper [of c] by auto

lemma toLowerCase_changes: "(toLowerCase s \<noteq> s) = (\<exists>c \<in> set s. isUpper c)"
proof
  assume "toLowerCase s \<noteq> s"
  then show "\<exists>c \<in> set s. isUpper c" using toLowerCase_fixpoint by blast
next
  assume "\<exists>c \<in> set s. isUpper c"
  then obtain c where c: "c \<in> set s" "isUpper c" by blast
  show "toLowerCase s \<noteq> s"
  proof
    assume "toLowerCase s = s"
    then have "map lower_char s = map id s" by (simp add: toLowerCase_def)
    with c(1) have "lower_char c = c" by (metis id_apply map_eq_conv)
    with upper_changes [OF c(2)] show False by simp
  qed
qed

text \<open>
  Claim C10, amended. The icon resolver returns \<open>block\<close> for a blank label and otherwise
  the first of its candidates (the trimmed, lower-cased label, its legacy alias, its
  hyphenated form, its compacted form) that is a known icon, \<open>block\<close> when none is. Every
  result is left unchanged by \<open>toLowerCase\<close>, so an identifier that \<open>toLowerCase\<close>
  changes, such as one containing a letter \<open>A\<close> to \<open>Z\<close>, is never returned: resolving it
  verbatim yields the first known candidate, and \<open>block\<close> only when no candidate is known.
\<close>

theorem resolver_first_known_candidate:
  "normalizeIconId iconId iconIds = first_known_candidate iconId iconIds
   \<and> toLowerCase (normalizeIconId iconId iconIds) = normalizeIconId iconId iconIds
   \<and> (toLowerCase iconId \<noteq> iconId \<longrightarrow> normalizeIconId iconId iconIds \<noteq> iconId)
   \<and> ((\<exists>c \<in> set iconId. isUpper c) \<longrightarrow> normalizeIconId iconId iconIds \<noteq> iconId)"
  using normalizeIconId_first_known [of iconId iconIds]
    normalizeIconId_lower_fixpoint [of iconId iconIds] toLowerCase_changes [of iconId]
  by metis

text \<open>
  The theorem at a host icon \<open>Cache\<close>, which resolves to the built-in \<open>cache\<close>, at a host
  icon \<open>MyIcon\<close>, which resolves to \<open>block\<close>, and at a label with noise.
\<close>

theorem resolver_first_known_candidate_witness:
  "toLowerCase ''Cache'' \<noteq> ''Cache''
   \<and> first_known_candidate ''Cache'' (insert ''Cache'' (set AVAILABLE_ICON_IDS)) = ''cache''
   \<and> normalizeIconId ''Cache'' (insert ''Cache'' (set AVAILABLE_ICON_IDS)) = ''cache''
   \<and> normalizeIconId ''Cache'' (insert ''Cache'' (set AVAILABLE_ICON_IDS)) \<noteq> ''Cache''
   \<and> (\<exists>c \<in> set ''MyIcon''. isUpper c)
   \<and> first_known_candidate ''MyIcon'' (insert ''MyIcon'' (set AVAILABLE_ICON_IDS)) = ''block''
   \<and> normalizeIconId ''MyIcon'' (insert ''MyIcon'' (set AVAILABLE_ICON_IDS)) = ''block''
   \<and> normalizeIconId ''MyIcon'' (insert ''MyIcon'' (set AVAILABLE_ICON_IDS)) \<noteq> ''MyIcon''
   \<and> first_known_candidate ''Load Balancer'' (set AVAILABLE_ICON_IDS) = ''loadbalancer''
   \<and> normalizeIconId ''Load Balancer'' (set AVAILABLE_ICON_IDS) = ''loadbalancer''"
proof -
  have changed: "toLowerCase ''Cache'' \<noteq> ''Cache''" by code_simp
  have up: "\<exists>c \<in> set ''MyIcon''. isUpper c" by code_simp
  have spec1: "first_known_candidate ''Cache'' (insert ''Cache'' (set AVAILABLE_ICON_IDS)) = ''cache''"
    by code_simp
  have spec2: "first_known_candidate ''MyIcon'' (insert ''MyIcon'' (set AVAILABLE_ICON_IDS)) = ''block''"
    by code_simp
  have spec3: "first_known_candidate ''Load Balancer'' (set AVAILABLE_ICON_IDS) = ''loadbalancer''"
    by code_simp
  from resolver_first_known_candidate [of "''Cache''" "insert ''Cache'' (set AVAILABLE_ICON_IDS)"]
    changed spec1
  have r1: "normalizeIconId ''Cache'' (insert ''Cache'' (set AVAILABLE_ICON_IDS)) = ''cache''
            \<and> normalizeIconId ''Cache'' (insert ''Cache'' (set AVAILABLE_ICON_IDS)) \<noteq> ''Cache''"
    by metis
  from resolver_first_known_candidate [of "''MyIcon''" "insert ''MyIcon'' (set AVAILABLE_ICON_IDS)"]
    up spec2
  have r2: "normalizeIconId ''MyIcon'' (insert ''MyIcon'' (set AVAILABLE_ICON_IDS)) = ''block''
            \<and> normalizeIconId ''MyIcon'' (insert ''MyIcon'' (set AVAILABLE_ICON_IDS)) \<noteq> ''MyIcon''"
    by metis
  from resolver_first_known_candidate [of "''Load Balancer''" "set AVAILABLE_ICON_IDS"] spec3
  have r3: "normalizeIconId ''Load Balancer'' (set AVAILABLE_ICON_IDS) = ''loadbalancer''"
    by metis
  from changed up spec1 spec2 spec3 r1 r2 r3 show ?thesis by blast
qed

text \<open>
  Claim C10, as stated, fails: with a host icon registered as \<open>Cache\<close>, resolving
  \<open>Cache\<close> verbatim yields the built-in \<open>cache\<close>, not the default \<open>block\<close>.
\<close>

theorem resolver_uppercase_counterexample:
  "buildIconIdSet example_platform (JArr [JObj [(''id'', JStr ''Cache'')]])
     = Inr (insert ''Cache'' (set AVAILABLE_ICON_IDS))
   \<and> isUpper CHR ''C''
   \<and> normalizeIconId ''Cache'' (insert ''Cache'' (set AVAILABLE_ICON_IDS)) = ''cache''
   \<and> ''cache'' \<noteq> ''block''"
proof -
  have "buildIconIdSet example_platform (JArr [JObj [(''id'', JStr ''Cache'')]])
     = Inr (insert ''Cache'' (set AVAILABLE_ICON_IDS))"
    by (simp add: buildIconIdSet_def get_prop_def truthy_def)
  moreover have "isUpper CHR ''C''" by code_simp
  moreover have "normalizeIconId ''Cache'' (insert ''Cache'' (set AVAILABLE_ICON_IDS)) = ''cache''"
    by code_simp
  ultimately show ?thesis by simp
qed

end
